theory Spec2Isabelle
  imports Complex_Main "HOL-Library.Sublist" "HOL-Library.Signed_Division"
begin

section \<open>String primitives of the script\<close>

text \<open>
  The script works on JavaScript strings with three library calls: \<^verbatim>\<open>s.split(' ')\<close>,
  \<^verbatim>\<open>parts.join(' ')\<close> and \<^verbatim>\<open>s.includes(p)\<close>. A string is a \<^typ>\<open>string\<close>; the tokens of
  the protocols involved (position descriptors, engine lines, move tokens) are ASCII, where
  a character of the model is one code unit of the source.
\<close>

abbreviation sp :: char where
  "sp \<equiv> CHR '' ''"

text \<open>
  \<^verbatim>\<open>s.split(' ')\<close>: cuts at every single space character; two spaces in a row give an empty
  part, and the empty string gives one empty part.
\<close>

fun split_sp :: "string \<Rightarrow> string list" where
  "split_sp [] = [[]]"
| "split_sp (c # cs) =
     (if c = sp then [] # split_sp cs
      else (case split_sp cs of p # ps \<Rightarrow> (c # p) # ps | [] \<Rightarrow> [[c]]))"

text \<open>\<^verbatim>\<open>parts.join(' ')\<close>.\<close>

fun join_sp :: "string list \<Rightarrow> string" where
  "join_sp [] = []"
| "join_sp [p] = p"
| "join_sp (p # q # ps) = p @ sp # join_sp (q # ps)"

text \<open>\<^verbatim>\<open>s.includes(p)\<close>: \<open>p\<close> occurs in \<open>s\<close> as a contiguous substring.\<close>

fun includes_str :: "string \<Rightarrow> string \<Rightarrow> bool" where
  "includes_str [] p = (p = [])"
| "includes_str (c # cs) p = (prefix p (c # cs) \<or> includes_str cs p)"

text \<open>\<^verbatim>\<open>xs[i]\<close> on an array: \<^verbatim>\<open>undefined\<close> (here \<open>None\<close>) out of range.\<close>

definition at_index :: "'a list \<Rightarrow> nat \<Rightarrow> 'a option" where
  "at_index xs i = (if i < length xs then Some (xs ! i) else None)"

section \<open>FEN completion\<close>

text \<open>
  \<^verbatim>\<open>
  function completeFen(partialFen) {
    let fenParts = partialFen.split(' ');
    if (fenParts.length === 6) return partialFen;
    if (fenParts.length === 2) fenParts.push('-');
    if (fenParts.length === 3) fenParts.push('-');
    if (fenParts.length === 4) fenParts.push('0');
    if (fenParts.length === 5) fenParts.push('1');
    return fenParts.join(' ');
  }
  \<close>
  \<open>push_when n x\<close> is one line \<^verbatim>\<open>if (fenParts.length === n) fenParts.push(x)\<close>.
\<close>

definition push_when :: "nat \<Rightarrow> string \<Rightarrow> string list \<Rightarrow> string list" where
  "push_when n x fenParts = (if length fenParts = n then fenParts @ [x] else fenParts)"

definition completeFen :: "string \<Rightarrow> string" where
  "completeFen partialFen =
     (let fenParts = split_sp partialFen in
      if length fenParts = 6 then partialFen
      else join_sp (push_when 5 ''1'' (push_when 4 ''0''
             (push_when 3 ''-'' (push_when 2 ''-'' fenParts)))))"

text \<open>
  The defaults of the third to sixth field, in the order of the pushes. An array of \<open>n\<close>
  parts gains those from the \<open>n+1\<close>-th field on; nothing when \<open>n < 2\<close> or \<open>n > 5\<close>.
\<close>

definition fen_defaults :: "string list" where
  "fen_defaults = [''-'', ''-'', ''0'', ''1'']"

section \<open>Fields in the words of the specification\<close>

text \<open>
  The specification counts whitespace-separated fields: the maximal runs of characters that
  are not whitespace. \<open>completeFen\<close> counts the parts of \<^verbatim>\<open>split(' ')\<close> instead. The two agree
  on a string whose parts are all plain: none empty and none holding a whitespace
  character, so that single spaces, and nothing else, separate its fields.
\<close>

definition is_whitespace :: "char \<Rightarrow> bool" where
  "is_whitespace c =
     (c = CHR '' '' \<or> c = CHR 0x09 \<or> c = CHR 0x0A \<or> c = CHR 0x0B
      \<or> c = CHR 0x0C \<or> c = CHR 0x0D)"

fun whitespace_fields :: "string \<Rightarrow> string list" where
  "whitespace_fields [] = []"
| "whitespace_fields (c # cs) =
     (if is_whitespace c then whitespace_fields cs
      else (case cs of
              [] \<Rightarrow> [[c]]
            | d # _ \<Rightarrow>
                if is_whitespace d then [c] # whitespace_fields cs
                else (case whitespace_fields cs of
                        p # ps \<Rightarrow> (c # p) # ps
                      | [] \<Rightarrow> [[c]])))"

definition plain_field :: "string \<Rightarrow> bool" where
  "plain_field p = (p \<noteq> [] \<and> (\<forall>c \<in> set p. \<not> is_whitespace c))"

section \<open>Configuration and state\<close>

text \<open>
  The settings object, with the defaults of the source. \<^verbatim>\<open>getSettings\<close> overlays what is
  stored on the defaults (\<^verbatim>\<open>{ ...defaultSettings, ...JSON.parse(stored) }\<close>) and checks
  nothing; a missing or unreadable store gives the defaults.
\<close>

record settings =
  autoMove :: bool
  skillLevel :: int
  depth :: int
  timeLimitMs :: int
  humanLikeTiming :: bool
  minDelay :: int
  maxDelay :: int
  debugMode :: bool
  showBestMove :: bool

definition defaultSettings :: settings where
  "defaultSettings =
     \<lparr>autoMove = False, skillLevel = 10, depth = 4, timeLimitMs = 1000,
      humanLikeTiming = False, minDelay = 500, maxDelay = 2000,
      debugMode = False, showBestMove = True\<rparr>"

record stored_settings =
  st_autoMove :: "bool option"
  st_skillLevel :: "int option"
  st_depth :: "int option"
  st_timeLimitMs :: "int option"
  st_humanLikeTiming :: "bool option"
  st_minDelay :: "int option"
  st_maxDelay :: "int option"
  st_debugMode :: "bool option"
  st_showBestMove :: "bool option"

definition overlay :: "'a \<Rightarrow> 'a option \<Rightarrow> 'a" where
  "overlay dflt v = (case v of None \<Rightarrow> dflt | Some x \<Rightarrow> x)"

definition getSettings :: "stored_settings option \<Rightarrow> settings" where
  "getSettings stored =
     (case stored of
        None \<Rightarrow> defaultSettings
      | Some st \<Rightarrow>
          \<lparr>autoMove = overlay (autoMove defaultSettings) (st_autoMove st),
           skillLevel = overlay (skillLevel defaultSettings) (st_skillLevel st),
           depth = overlay (depth defaultSettings) (st_depth st),
           timeLimitMs = overlay (timeLimitMs defaultSettings) (st_timeLimitMs st),
           humanLikeTiming = overlay (humanLikeTiming defaultSettings) (st_humanLikeTiming st),
           minDelay = overlay (minDelay defaultSettings) (st_minDelay st),
           maxDelay = overlay (maxDelay defaultSettings) (st_maxDelay st),
           debugMode = overlay (debugMode defaultSettings) (st_debugMode st),
           showBestMove = overlay (showBestMove defaultSettings) (st_showBestMove st)\<rparr>)"

text \<open>
  What leaves the script: the commands posted to the engine, the frames sent on the
  socket (\<^verbatim>\<open>{t: "move", d: {u: move, b: 1, l: 10000, a: 1}}\<close>), the messages given to
  \<^verbatim>\<open>log\<close> and \<^verbatim>\<open>console.error\<close>, and the status line of the panel.
\<close>

datatype engine_cmd =
  Uci
| SetOption string int
| UciNewGame
| PositionFen string
| GoDepthMovetime int int

datatype out_frame = MoveFrame string int int int

datatype log_line =
  LogGameEnded
| LogBestMove string
| LogNotConnected
| LogInvalidMove
| LogMoveSent string
| LogNoMoveToPlay
| ErrSendFailed

datatype status =
  Initializing
| EngineReady
| Calculating
| Waiting int
| MoveSent

datatype ready_state = CONNECTING | OPEN | CLOSING | CLOSED

text \<open>
  The tracked socket: its \<^verbatim>\<open>readyState\<close>, and whether its \<^verbatim>\<open>send\<close> raises (the case
  the \<^verbatim>\<open>try\<close>/\<^verbatim>\<open>catch\<close> of \<^verbatim>\<open>sendMove\<close> is there for).
\<close>

record socket =
  readyState :: ready_state
  sendRaises :: bool

type_synonym history_entry = "string \<times> string \<times> int"

text \<open>
  The module-level variables of the script, followed by the effects it has had. \<^verbatim>\<open>null\<close> and
  \<^verbatim>\<open>undefined\<close> are \<open>None\<close>. A pending \<^verbatim>\<open>setTimeout\<close> of \<^verbatim>\<open>sendMoveWithDelay\<close> is
  the pair of its delay and the move its callback closes over.
\<close>

record state =
  webSocketWrapper :: "socket option"
  currentFen :: string
  bestMove :: "string option"
  isEngineReady :: bool
  isCalculating :: bool
  lastCalculatedFen :: "string option"
  moveHistory :: "history_entry list"
  settings :: settings
  enginePosts :: "engine_cmd list"
  socketSent :: "out_frame list"
  timers :: "(int \<times> string) list"
  logs :: "log_line list"
  statusDisplay :: status
  bestMoveDisplay :: "string option"

definition initialState :: "settings \<Rightarrow> state" where
  "initialState st =
     \<lparr>webSocketWrapper = None, currentFen = [], bestMove = None,
      isEngineReady = False, isCalculating = False, lastCalculatedFen = None,
      moveHistory = [], settings = st, enginePosts = [], socketSent = [],
      timers = [], logs = [], statusDisplay = Initializing, bestMoveDisplay = None\<rparr>"

definition log_msg :: "log_line \<Rightarrow> state \<Rightarrow> state" where
  "log_msg m s = s\<lparr>logs := logs s @ [m]\<rparr>"

section \<open>Engine adapter\<close>

text \<open>
  \<^verbatim>\<open>initializeChessEngine\<close>: while \<^verbatim>\<open>STOCKFISH\<close> is not loaded it only reschedules itself;
  once it is, the handshake is posted and the engine is ready.
\<close>

definition initializeChessEngine :: "bool \<Rightarrow> state \<Rightarrow> state" where
  "initializeChessEngine loaded s =
     (if \<not> loaded then s
      else s\<lparr>enginePosts := enginePosts s @
                [Uci, SetOption ''Skill Level'' (skillLevel (settings s)),
                 SetOption ''Hash'' 16, SetOption ''Threads'' 1, UciNewGame],
              isEngineReady := True,
              statusDisplay := EngineReady\<rparr>)"

text \<open>
  \<^verbatim>\<open>
  function calculateMove() {
    if (!isEngineReady || !currentFen || isCalculating) return;
    if (currentFen === lastCalculatedFen) return;
    isCalculating = true;
    lastCalculatedFen = currentFen;
    updateStatusDisplay('Calculating...');
    chessEngine.postMessage("position fen " + currentFen);
    chessEngine.postMessage(`go depth ${settings.depth} movetime ${settings.timeLimitMs}`);
  }
  \<close>
  \<^verbatim>\<open>!currentFen\<close> holds of the empty string.
\<close>

definition calculateMove :: "state \<Rightarrow> state" where
  "calculateMove s =
     (if \<not> isEngineReady s \<or> currentFen s = [] \<or> isCalculating s then s
      else if Some (currentFen s) = lastCalculatedFen s then s
      else s\<lparr>isCalculating := True,
              lastCalculatedFen := Some (currentFen s),
              statusDisplay := Calculating,
              enginePosts := enginePosts s @
                [PositionFen (currentFen s),
                 GoDepthMovetime (depth (settings s)) (timeLimitMs (settings s))]\<rparr>)"

section \<open>Dispatch\<close>

text \<open>
  \<^verbatim>\<open>
  function sendMove(move) {
    if (!webSocketWrapper || webSocketWrapper.readyState !== WebSocket.OPEN) {
      log('Cannot send move: WebSocket not connected');
      return false;
    }
    if (!move || move.length < 4) {
      log('Invalid move format');
      return false;
    }
    try {
      const moveMessage = JSON.stringify({ t: "move", d: { u: move, b: 1, l: 10000, a: 1 } });
      webSocketWrapper.send(moveMessage);
      log(`Move sent: ${move}`);
      // Clear best move after sending
      bestMove = null;
      updateBestMoveDisplay(null);
      return true;
    } catch (e) {
      console.error(`[${namespace}] Failed to send move:`, e);
      return false;
    }
  }
  \<close>
  The result is the returned boolean and the state left behind.
\<close>

definition sendMove :: "string \<Rightarrow> state \<Rightarrow> bool \<times> state" where
  "sendMove move s =
     (case webSocketWrapper s of
        None \<Rightarrow> (False, log_msg LogNotConnected s)
      | Some ws \<Rightarrow>
          if readyState ws \<noteq> OPEN then (False, log_msg LogNotConnected s)
          else if move = [] \<or> length move < 4 then (False, log_msg LogInvalidMove s)
          else if sendRaises ws then (False, log_msg ErrSendFailed s)
          else (True,
                (log_msg (LogMoveSent move)
                   (s\<lparr>socketSent := socketSent s @ [MoveFrame move 1 10000 1]\<rparr>))
                 \<lparr>bestMove := None, bestMoveDisplay := None\<rparr>))"

text \<open>
  The numbers of the script are IEEE 754 doubles (binary64), and its arithmetic rounds every
  exact result to the nearest double, ties to the even significand. \<open>roundDouble\<close> is that
  rounding on the reals, for magnitudes below \<open>2^1024\<close> (beyond, the source has
  \<^verbatim>\<open>Infinity\<close>). \<open>binaryExponent a\<close> is the exponent \<open>E\<close> with \<open>2^E \<le> a < 2^(E+1)\<close>, found by
  halving or doubling and kept within the normal range from \<open>-1022\<close> to \<open>1023\<close>; the doubles
  next to \<open>x\<close> are the integer multiples of \<open>2^(E-52)\<close>, which for \<open>E = -1022\<close> is the spacing
  \<open>2^(-1074)\<close> of the subnormal numbers. A real \<open>x\<close> is a double when \<open>roundDouble x = x\<close>.
\<close>

definition roundHalfEven :: "real \<Rightarrow> int" where
  "roundHalfEven q =
     (let n = \<lfloor>q\<rfloor>; f = q - of_int n
      in if f < 1/2 then n else if 1/2 < f then n + 1 else if even n then n else n + 1)"

fun halvings :: "nat \<Rightarrow> real \<Rightarrow> nat" where
  "halvings 0 a = 0"
| "halvings (Suc n) a = (if a < 2 then 0 else Suc (halvings n (a / 2)))"

fun doublings :: "nat \<Rightarrow> real \<Rightarrow> nat" where
  "doublings 0 a = 0"
| "doublings (Suc n) a = (if 1 \<le> a then 0 else Suc (doublings n (2 * a)))"

definition binaryExponent :: "real \<Rightarrow> int" where
  "binaryExponent a =
     (if 1 \<le> a then int (halvings 1023 a) else - int (doublings 1022 a))"

definition ulpExponent :: "real \<Rightarrow> int" where
  "ulpExponent x = binaryExponent \<bar>x\<bar> - 52"

definition roundDouble :: "real \<Rightarrow> real" where
  "roundDouble x =
     of_int (roundHalfEven (x / 2 powi ulpExponent x)) * 2 powi ulpExponent x"

text \<open>
  \<^verbatim>\<open>
  function sendMoveWithDelay(move) {
    let delay;
    if (settings.humanLikeTiming) {
      delay = Math.floor(Math.random() * (settings.maxDelay - settings.minDelay)) + settings.minDelay;
    } else {
      delay = settings.minDelay;
    }
    updateStatusDisplay(`Waiting ${delay}ms...`);
    setTimeout(() => { sendMove(move); updateStatusDisplay('Move sent'); }, delay);
  }
  \<close>
  \<open>rnd\<close> is the value \<^verbatim>\<open>Math.random()\<close> returns, a double with \<open>0 \<le> rnd < 1\<close>. The
  difference, the product and the sum are operations on doubles: each is the exact result
  rounded by \<open>roundDouble\<close>. \<^verbatim>\<open>Math.floor\<close> is exact.
\<close>

definition delay :: "real \<Rightarrow> settings \<Rightarrow> int" where
  "delay rnd st =
     (if humanLikeTiming st
      then \<lfloor>roundDouble
              (of_int \<lfloor>roundDouble (rnd * roundDouble (of_int (maxDelay st - minDelay st)))\<rfloor>
               + of_int (minDelay st))\<rfloor>
      else minDelay st)"

definition sendMoveWithDelay :: "real \<Rightarrow> string \<Rightarrow> state \<Rightarrow> state" where
  "sendMoveWithDelay rnd move s =
     s\<lparr>statusDisplay := Waiting (delay rnd (settings s)),
       timers := timers s @ [(delay rnd (settings s), move)]\<rparr>"

text \<open>The callback of the timer, and the expiry of the \<open>i\<close>-th pending timer.\<close>

definition timerCallback :: "string \<Rightarrow> state \<Rightarrow> state" where
  "timerCallback move s = (snd (sendMove move s))\<lparr>statusDisplay := MoveSent\<rparr>"

definition timerExpires :: "nat \<Rightarrow> state \<Rightarrow> state" where
  "timerExpires i s =
     (if i < length (timers s)
      then timerCallback (snd (timers s ! i))
             (s\<lparr>timers := take i (timers s) @ drop (Suc i) (timers s)\<rparr>)
      else s)"

section \<open>Engine output\<close>

text \<open>
  \<^verbatim>\<open>
  if (message.includes("bestmove")) {
    isCalculating = false;
    bestMove = message.split(" ")[1];
    if (bestMove && bestMove !== '(none)') {
      log(`Best move calculated: ${bestMove}`);
      updateBestMoveDisplay(bestMove);
      moveHistory.push({ fen: currentFen, move: bestMove, timestamp: Date.now() });
      if (moveHistory.length > 50) moveHistory.shift();
      if (settings.autoMove) sendMoveWithDelay(bestMove);
    }
  } else if (message.includes("info depth")) { ... updateEngineInfo(info) ... }
  \<close>
  \<open>now\<close> is \<^verbatim>\<open>Date.now()\<close>. An \<^verbatim>\<open>info depth\<close> line only rewrites the engine-info element of
  the panel, which the state does not hold.
\<close>

definition pushHistory :: "history_entry \<Rightarrow> history_entry list \<Rightarrow> history_entry list" where
  "pushHistory e h = (let h' = h @ [e] in if length h' > 50 then tl h' else h')"

definition acceptBestMove :: "real \<Rightarrow> int \<Rightarrow> string \<Rightarrow> state \<Rightarrow> state" where
  "acceptBestMove rnd now m s =
     (let s' = (log_msg (LogBestMove m) s)
                 \<lparr>bestMoveDisplay := Some m,
                  moveHistory := pushHistory (currentFen s, m, now) (moveHistory s)\<rparr>
      in if autoMove (settings s') then sendMoveWithDelay rnd m s' else s')"

definition engineOnMessage :: "real \<Rightarrow> int \<Rightarrow> string \<Rightarrow> state \<Rightarrow> state" where
  "engineOnMessage rnd now message s =
     (if includes_str message ''bestmove'' then
        (let s' = s\<lparr>isCalculating := False,
                    bestMove := at_index (split_sp message) 1\<rparr>
         in case bestMove s' of
              None \<Rightarrow> s'
            | Some m \<Rightarrow>
                if m \<noteq> [] \<and> m \<noteq> ''(none)'' then acceptBestMove rnd now m s' else s')
      else s)"

section \<open>Position tracker\<close>

text \<open>
  An inbound payload either fails \<^verbatim>\<open>JSON.parse\<close> or is an object with a tag \<^verbatim>\<open>t\<close> and,
  possibly, a body \<^verbatim>\<open>d\<close>; of the body the handler reads \<^verbatim>\<open>fen\<close> (\<open>Some\<close> when it is a
  string) and \<^verbatim>\<open>ply\<close> (\<open>None\<close> when \<^verbatim>\<open>undefined\<close>, an integer otherwise).
  \<^verbatim>\<open>
  case 'd':
  case 'move':
    if (message.d && typeof message.d.fen === "string") {
      currentFen = message.d.fen;
      const ply = message.d.ply !== undefined ? message.d.ply : 0;
      let isWhitesTurn = ply % 2 === 0;
      currentFen += isWhitesTurn ? " w" : " b";
      currentFen = completeFen(currentFen);
      if (isEngineReady && !isCalculating) calculateMove();
    }
    break;
  case 'end':
  case 'endData':
    log('Game ended');
    bestMove = null;
    updateBestMoveDisplay(null);
    break;
  \<close>
  The remainder \<^verbatim>\<open>%\<close> of JavaScript takes the sign of the dividend, as \<open>smod\<close> does.
\<close>

datatype body = Body "string option" "int option"

datatype inbound = NotJson | Message string "body option"

definition sideToMove :: "int option \<Rightarrow> string" where
  "sideToMove p =
     (let ply = (case p of None \<Rightarrow> 0 | Some n \<Rightarrow> n);
          isWhitesTurn = (ply smod 2 = 0)
      in if isWhitesTurn then '' w'' else '' b'')"

fun positionUpdate :: "body option \<Rightarrow> state \<Rightarrow> state" where
  "positionUpdate (Some (Body (Some fen) p)) s =
     (let s' = s\<lparr>currentFen := completeFen (fen @ sideToMove p)\<rparr>
      in if isEngineReady s' \<and> \<not> isCalculating s' then calculateMove s' else s')"
| "positionUpdate _ s = s"

definition socketOnMessage :: "inbound \<Rightarrow> state \<Rightarrow> state" where
  "socketOnMessage ev s =
     (case ev of
        NotJson \<Rightarrow> s
      | Message t d \<Rightarrow>
          if t = ''d'' \<or> t = ''move'' then positionUpdate d s
          else if t = ''end'' \<or> t = ''endData''
          then (log_msg LogGameEnded s)\<lparr>bestMove := None, bestMoveDisplay := None\<rparr>
          else s)"

text \<open>A matching socket is constructed; the tracked socket closes.\<close>

definition socketConnected :: "socket \<Rightarrow> state \<Rightarrow> state" where
  "socketConnected ws s = s\<lparr>webSocketWrapper := Some ws\<rparr>"

definition socketOnClose :: "state \<Rightarrow> state" where
  "socketOnClose s = s\<lparr>webSocketWrapper := None\<rparr>"

section \<open>Panel handlers\<close>

text \<open>
  \<^verbatim>\<open>parseInt(e.target.value)\<close> is an integer or \<^verbatim>\<open>NaN\<close> (\<open>None\<close>); \<^verbatim>\<open>x || d\<close> is \<open>d\<close> when
  \<open>x\<close> is \<^verbatim>\<open>NaN\<close> or \<open>0\<close>.
  \<^verbatim>\<open>
  settings.depth = Math.max(1, Math.min(20, parseInt(e.target.value) || 4));
  settings.minDelay = Math.max(100, parseInt(e.target.value) || 500);
  settings.maxDelay = Math.max(settings.minDelay + 100, parseInt(e.target.value) || 2000);
  \<close>
  The sum \<open>minDelay + 100\<close> is the exact one, which is the sum of the source as long as it
  stays below \<open>2^53\<close>.
\<close>

definition or_else :: "int option \<Rightarrow> int \<Rightarrow> int" where
  "or_else v d = (case v of None \<Rightarrow> d | Some n \<Rightarrow> if n = 0 then d else n)"

definition onDepthChange :: "int option \<Rightarrow> state \<Rightarrow> state" where
  "onDepthChange v s = s\<lparr>settings := (settings s)\<lparr>depth := max 1 (min 20 (or_else v 4))\<rparr>\<rparr>"

definition onMinDelayChange :: "int option \<Rightarrow> state \<Rightarrow> state" where
  "onMinDelayChange v s = s\<lparr>settings := (settings s)\<lparr>minDelay := max 100 (or_else v 500)\<rparr>\<rparr>"

definition onMaxDelayChange :: "int option \<Rightarrow> state \<Rightarrow> state" where
  "onMaxDelayChange v s =
     s\<lparr>settings := (settings s)\<lparr>maxDelay := max (minDelay (settings s) + 100) (or_else v 2000)\<rparr>\<rparr>"

text \<open>
  The two toggles set the option to whether the switch shows \<^verbatim>\<open>active\<close> after the click;
  the switch is drawn from the option and kept in step with it, so the click negates it.
\<close>

definition onAutoMoveToggle :: "state \<Rightarrow> state" where
  "onAutoMoveToggle s = s\<lparr>settings := (settings s)\<lparr>autoMove := \<not> autoMove (settings s)\<rparr>\<rparr>"

definition onHumanToggle :: "state \<Rightarrow> state" where
  "onHumanToggle s =
     s\<lparr>settings := (settings s)\<lparr>humanLikeTiming := \<not> humanLikeTiming (settings s)\<rparr>\<rparr>"

text \<open>
  \<^verbatim>\<open>
  if (bestMove) { sendMoveWithDelay(bestMove); } else { log('No move to play'); }
  \<close>
  (the Play button and Alt+M), and
  \<^verbatim>\<open>
  lastCalculatedFen = null; calculateMove();
  \<close>
  (the Recalculate button and Alt+C).
\<close>

definition onPlayClick :: "real \<Rightarrow> state \<Rightarrow> state" where
  "onPlayClick rnd s =
     (case bestMove s of
        None \<Rightarrow> log_msg LogNoMoveToPlay s
      | Some m \<Rightarrow> if m \<noteq> [] then sendMoveWithDelay rnd m s else log_msg LogNoMoveToPlay s)"

definition onRecalcClick :: "state \<Rightarrow> state" where
  "onRecalcClick s = calculateMove (s\<lparr>lastCalculatedFen := None\<rparr>)"

section \<open>Runs of the script\<close>

text \<open>
  The script after start-up with auto-move switched on: the defaults loaded, a game socket
  open, the engine initialised.
\<close>

definition connectedReady :: state where
  "connectedReady =
     initializeChessEngine True
       (socketConnected \<lparr>readyState = OPEN, sendRaises = False\<rparr>
          (onAutoMoveToggle (initialState defaultSettings)))"

text \<open>
  A stalemate reaches the tracker (Black to move, no legal move); the engine is asked for
  a move and will answer \<^verbatim>\<open>bestmove (none)\<close>.
\<close>

definition stalemateScenario :: state where
  "stalemateScenario =
     socketOnMessage (Message ''move'' (Some (Body (Some ''7k/5Q2/6K1/8/8/8/8/8'') (Some 1))))
       connectedReady"

text \<open>
  The opening position arrives, the engine answers \<^verbatim>\<open>e2e4\<close>, the auto-move timer is
  started, and the socket closes before the timer expires.
\<close>

definition pendingMoveScenario :: state where
  "pendingMoveScenario =
     socketOnClose
       (engineOnMessage 0 0 ''bestmove e2e4 ponder e7e5''
          (socketOnMessage
             (Message ''move''
                (Some (Body (Some ''rnbqkbnr/pppppppp/8/8/8/8/PPPPPPPP/RNBQKBNR'') (Some 0))))
             connectedReady))"

text \<open>
  The one line that a call of \<open>sendMove\<close> writes to the log or the error console; the
  call returns \<^verbatim>\<open>true\<close> exactly when that line is \<^verbatim>\<open>Move sent\<close>.
\<close>

definition sendOutcome :: "string \<Rightarrow> state \<Rightarrow> log_line" where
  "sendOutcome move s =
     (case webSocketWrapper s of
        None \<Rightarrow> LogNotConnected
      | Some ws \<Rightarrow>
          if readyState ws \<noteq> OPEN then LogNotConnected
          else if length move < 4 then LogInvalidMove
          else if sendRaises ws then ErrSendFailed
          else LogMoveSent move)"

text \<open>A run of engine lines, each with the random number and the clock it is handled under.\<close>

fun engineLines :: "(real \<times> int \<times> string) list \<Rightarrow> state \<Rightarrow> state" where
  "engineLines [] s = s"
| "engineLines ((rnd, now, message) # ls) s = engineLines ls (engineOnMessage rnd now message s)"

text \<open>
  Two writes on the panel of a fresh script: human-like timing switched on, and the
  minimal delay set to 3000, respectively to 2000, with the maximal delay at its default
  of 2000.
\<close>

definition minDelayRaised :: state where
  "minDelayRaised = onMinDelayChange (Some 3000) (onHumanToggle (initialState defaultSettings))"

definition delaysEqual :: state where
  "delaysEqual = onMinDelayChange (Some 2000) (onHumanToggle (initialState defaultSettings))"

text \<open>
  The same with delays beyond \<open>2^53\<close>: the maximal delay set to \<open>2^53 + 4\<close>, then the
  minimal delay to \<open>2^53 + 2\<close>; both are doubles.
\<close>

definition delaysBeyond :: state where
  "delaysBeyond =
     onMinDelayChange (Some 9007199254740994)
       (onMaxDelayChange (Some 9007199254740996)
          (onHumanToggle (initialState defaultSettings)))"

section \<open>Facts about splitting and joining\<close>

lemma split_sp_nonempty: "split_sp s \<noteq> []"
  by (cases s) (auto split: list.splits)

lemma join_sp_Cons: "ps \<noteq> [] \<Longrightarrow> join_sp (p # ps) = p @ sp # join_sp ps"
  by (cases ps) auto

lemma join_split_sp: "join_sp (split_sp s) = s"
proof (induction s)
  case Nil
  show ?case by simp
next
  case (Cons c cs)
  obtain p ps where ps: "split_sp cs = p # ps"
    using split_sp_nonempty [of cs] by (cases "split_sp cs") auto
  show ?case
  proof (cases "c = sp")
    case True
    with Cons ps show ?thesis by (simp add: join_sp_Cons)
  next
    case False
    with Cons ps show ?thesis by (cases ps) auto
  qed
qed

lemma split_sp_no_space: "sp \<notin> set p \<Longrightarrow> split_sp (p @ sp # s) = p # split_sp s"
  by (induction p) auto

lemma split_sp_single: "sp \<notin> set p \<Longrightarrow> split_sp p = [p]"
  by (induction p) auto

lemma split_join_sp:
  "ps \<noteq> [] \<Longrightarrow> \<forall>p \<in> set ps. sp \<notin> set p \<Longrightarrow> split_sp (join_sp ps) = ps"
proof (induction ps rule: join_sp.induct)
  case 1
  then show ?case by simp
next
  case (2 p)
  then show ?case by (simp add: split_sp_single)
next
  case (3 p q ps)
  then show ?case by (simp add: split_sp_no_space)
qed

lemma parts_no_space: "p \<in> set (split_sp s) \<Longrightarrow> sp \<notin> set p"
proof (induction s arbitrary: p)
  case Nil
  then show ?case by simp
next
  case (Cons c cs)
  obtain q qs where qs: "split_sp cs = q # qs"
    using split_sp_nonempty [of cs] by (cases "split_sp cs") auto
  have q: "sp \<notin> set q" and rest: "\<And>r. r \<in> set qs \<Longrightarrow> sp \<notin> set r"
    using Cons.IH qs by auto
  show ?case
  proof (cases "c = sp")
    case True
    with Cons.prems qs q rest show ?thesis by auto
  next
    case False
    with Cons.prems qs q rest show ?thesis by auto
  qed
qed

lemma split_sp_append_fields:
  assumes "\<forall>q \<in> set qs. sp \<notin> set q"
  shows "split_sp (join_sp (split_sp s @ qs)) = split_sp s @ qs"
proof (rule split_join_sp)
  show "split_sp s @ qs \<noteq> []" by (simp add: split_sp_nonempty)
  show "\<forall>p \<in> set (split_sp s @ qs). sp \<notin> set p"
    using assms parts_no_space by auto
qed

lemma pushes_eq:
  assumes "2 \<le> length ps" "length ps \<le> 6"
  shows "push_when 5 ''1'' (push_when 4 ''0'' (push_when 3 ''-'' (push_when 2 ''-'' ps)))
         = ps @ drop (length ps - 2) fen_defaults"
proof -
  from assms consider "length ps = 2" | "length ps = 3" | "length ps = 4"
    | "length ps = 5" | "length ps = 6" by linarith
  then show ?thesis
    by cases (simp_all add: push_when_def fen_defaults_def)
qed

lemma pushes_id:
  assumes "length ps < 2 \<or> 6 \<le> length ps"
  shows "push_when 5 ''1'' (push_when 4 ''0'' (push_when 3 ''-'' (push_when 2 ''-'' ps))) = ps"
  using assms by (auto simp: push_when_def)

lemma fen_defaults_no_space: "\<forall>q \<in> set (drop k fen_defaults). sp \<notin> set q"
proof -
  have "\<forall>q \<in> set fen_defaults. sp \<notin> set q" by (simp add: fen_defaults_def)
  then show ?thesis by (meson in_set_dropD)
qed

lemma completeFen_parts:
  assumes "2 \<le> length (split_sp x)" "length (split_sp x) \<le> 6"
  shows "split_sp (completeFen x) = split_sp x @ drop (length (split_sp x) - 2) fen_defaults"
proof (cases "length (split_sp x) = 6")
  case True
  then show ?thesis by (simp add: completeFen_def fen_defaults_def)
next
  case False
  then have "completeFen x = join_sp (split_sp x @ drop (length (split_sp x) - 2) fen_defaults)"
    using pushes_eq [OF assms] by (simp add: completeFen_def Let_def)
  then show ?thesis
    using split_sp_append_fields [OF fen_defaults_no_space] by simp
qed

lemma completeFen_length:
  assumes "2 \<le> length (split_sp x)" "length (split_sp x) \<le> 6"
  shows "length (split_sp (completeFen x)) = 6"
  using assms by (simp add: completeFen_parts fen_defaults_def)

lemma completeFen_six: "length (split_sp x) = 6 \<Longrightarrow> completeFen x = x"
  by (simp add: completeFen_def)

lemma completeFen_outside:
  assumes "length (split_sp x) < 2 \<or> 6 \<le> length (split_sp x)"
  shows "completeFen x = x"
  using pushes_id [OF assms] by (simp add: completeFen_def Let_def join_split_sp)

lemma completeFen_idem: "completeFen (completeFen x) = completeFen x"
proof (cases "2 \<le> length (split_sp x) \<and> length (split_sp x) \<le> 6")
  case True
  then show ?thesis by (simp add: completeFen_length completeFen_six)
next
  case False
  then have "completeFen x = x" by (intro completeFen_outside) linarith
  then show ?thesis by simp
qed

lemma split_sp_space: "sp \<in> set x \<Longrightarrow> 2 \<le> length (split_sp x)"
proof (induction x)
  case Nil
  then show ?case by simp
next
  case (Cons c cs)
  obtain q qs where qs: "split_sp cs = q # qs"
    using split_sp_nonempty [of cs] by (cases "split_sp cs") auto
  show ?case
  proof (cases "c = sp")
    case True
    then show ?thesis using qs by simp
  next
    case False
    with Cons qs show ?thesis by auto
  qed
qed

lemma no_space_one_part: "sp \<notin> set x \<Longrightarrow> length (split_sp x) < 2"
  by (simp add: split_sp_single)


lemma whitespace_fields_plain: "plain_field p \<Longrightarrow> whitespace_fields p = [p]"
proof (induction p)
  case Nil
  then show ?case by (simp add: plain_field_def)
next
  case (Cons c p)
  show ?case
  proof (cases p)
    case Nil
    with Cons.prems show ?thesis by (simp add: plain_field_def)
  next
    case (Cons d ds)
    with Cons.prems have "plain_field p" by (simp add: plain_field_def)
    with Cons.IH have "whitespace_fields p = [p]" by simp
    with Cons Cons.prems show ?thesis by (simp add: plain_field_def)
  qed
qed

lemma whitespace_fields_plain_space:
  "plain_field p \<Longrightarrow> whitespace_fields (p @ sp # rest) = p # whitespace_fields rest"
proof (induction p)
  case Nil
  then show ?case by (simp add: plain_field_def)
next
  case (Cons c p)
  show ?case
  proof (cases p)
    case Nil
    with Cons.prems show ?thesis by (simp add: plain_field_def is_whitespace_def)
  next
    case (Cons d ds)
    with Cons.prems have "plain_field p" by (simp add: plain_field_def)
    with Cons.IH have "whitespace_fields (p @ sp # rest) = p # whitespace_fields rest" by simp
    with Cons Cons.prems show ?thesis by (simp add: plain_field_def)
  qed
qed

lemma whitespace_fields_join:
  "ps \<noteq> [] \<Longrightarrow> \<forall>p \<in> set ps. plain_field p \<Longrightarrow> whitespace_fields (join_sp ps) = ps"
proof (induction ps rule: join_sp.induct)
  case 1
  then show ?case by simp
next
  case (2 p)
  then show ?case by (simp add: whitespace_fields_plain)
next
  case (3 p q ps)
  then show ?case by (simp add: whitespace_fields_plain_space)
qed

lemma whitespace_fields_split:
  assumes "\<forall>p \<in> set (split_sp x). plain_field p"
  shows "whitespace_fields x = split_sp x"
  using whitespace_fields_join [OF split_sp_nonempty assms] by (simp add: join_split_sp)

lemma fen_defaults_plain: "\<forall>q \<in> set (drop k fen_defaults). plain_field q"
proof -
  have "\<forall>q \<in> set fen_defaults. plain_field q"
    by (simp add: fen_defaults_def plain_field_def is_whitespace_def)
  then show ?thesis by (meson in_set_dropD)
qed

lemma completeFen_whitespace_fields:
  assumes "2 \<le> length (split_sp x)" "length (split_sp x) \<le> 6"
    and "\<forall>p \<in> set (split_sp x). plain_field p"
  shows "whitespace_fields (completeFen x) = split_sp (completeFen x)"
proof (rule whitespace_fields_split)
  show "\<forall>p \<in> set (split_sp (completeFen x)). plain_field p"
    using assms(3) fen_defaults_plain by (auto simp: completeFen_parts [OF assms(1,2)])
qed

section \<open>Facts about the handlers\<close>

lemmas scenario_defs = connectedReady_def initialState_def defaultSettings_def
  initializeChessEngine_def socketConnected_def onAutoMoveToggle_def socketOnMessage_def
  calculateMove_def completeFen_def push_when_def sideToMove_def signed_modulo_int_def

lemmas dispatch_defs = engineOnMessage_def acceptBestMove_def pushHistory_def at_index_def
  onPlayClick_def sendMoveWithDelay_def timerExpires_def timerCallback_def sendMove_def
  log_msg_def delay_def socketOnClose_def

lemma smod_2_even: "((n::int) smod 2 = 0) = even n"
  by (auto simp: signed_modulo_int_def sgn_if)

lemma sendMove_result: "fst (sendMove move s) = (sendOutcome move s = LogMoveSent move)"
  by (auto simp: sendMove_def sendOutcome_def split: option.splits)

lemma sendMove_logs: "logs (snd (sendMove move s)) = logs s @ [sendOutcome move s]"
  by (auto simp: sendMove_def sendOutcome_def log_msg_def split: option.splits)

lemma sendMove_bestMove:
  "bestMove (snd (sendMove move s)) = (if fst (sendMove move s) then None else bestMove s)"
  by (auto simp: sendMove_def log_msg_def split: option.splits)

lemma sendMove_socketSent:
  "socketSent (snd (sendMove move s)) =
     (if fst (sendMove move s) then socketSent s @ [MoveFrame move 1 10000 1] else socketSent s)"
  by (auto simp: sendMove_def log_msg_def split: option.splits)

lemma sendMove_timers: "timers (snd (sendMove move s)) = timers s"
  by (auto simp: sendMove_def log_msg_def split: option.splits)

lemma pendingMoveScenario_fields:
  "bestMove pendingMoveScenario = Some ''e2e4''
   \<and> timers pendingMoveScenario = [(500, ''e2e4'')]
   \<and> webSocketWrapper pendingMoveScenario = None
   \<and> socketSent pendingMoveScenario = []"
  by (simp add: pendingMoveScenario_def scenario_defs dispatch_defs Let_def)

lemma sideToMove_parity: "sideToMove (Some n) = (if even n then '' w'' else '' b'')"
  by (simp add: sideToMove_def smod_2_even)

lemma sideToMove_None: "sideToMove None = '' w''"
  by (simp add: sideToMove_def)

lemma sideToMove_cases: "sideToMove p = '' w'' \<or> sideToMove p = '' b''"
  by (cases p) (simp_all add: sideToMove_parity sideToMove_None)

lemma with_side_two_parts: "2 \<le> length (split_sp (fen @ sideToMove p))"
  using sideToMove_cases [of p] by (intro split_sp_space) auto

lemma currentFen_calculateMove: "currentFen (calculateMove s) = currentFen s"
  by (simp add: calculateMove_def)

lemma currentFen_positionUpdate:
  "currentFen (positionUpdate (Some (Body (Some fen) p)) s) = completeFen (fen @ sideToMove p)"
  by (simp add: Let_def currentFen_calculateMove)

lemma tracked_update:
  assumes "t = ''d'' \<or> t = ''move''"
  shows "socketOnMessage (Message t (Some (Body (Some fen) p))) s
         = positionUpdate (Some (Body (Some fen) p)) s"
  using assms by (auto simp: socketOnMessage_def)

lemma split_sp_one_field: "length (split_sp x) < 2 \<Longrightarrow> sp \<notin> set x"
proof (induction x)
  case Nil
  then show ?case by simp
next
  case (Cons c cs)
  then show ?case
    using split_sp_nonempty [of cs] by (auto split: if_splits list.splits)
qed

lemma one_field_with_side:
  assumes "length (split_sp fen) < 2"
  shows "split_sp (fen @ sideToMove p) = [fen, tl (sideToMove p)]"
proof -
  have "sp \<notin> set fen" using assms by (rule split_sp_one_field)
  then show ?thesis
    using sideToMove_cases [of p] by (auto simp: split_sp_no_space)
qed

lemma completeFen_one_field_with_side:
  assumes "length (split_sp fen) < 2"
  shows "completeFen (fen @ sideToMove p) = fen @ sideToMove p @ '' - - 0 1''"
  using sideToMove_cases [of p]
  by (auto simp: completeFen_def one_field_with_side [OF assms] push_when_def)

lemma positionUpdate_submits:
  assumes "isEngineReady s" "\<not> isCalculating s"
    and "lastCalculatedFen s \<noteq> Some (completeFen (fen @ sideToMove p))"
    and "completeFen (fen @ sideToMove p) \<noteq> []"
  shows "enginePosts (positionUpdate (Some (Body (Some fen) p)) s)
         = enginePosts s @ [PositionFen (completeFen (fen @ sideToMove p)),
              GoDepthMovetime (depth (settings s)) (timeLimitMs (settings s))]"
  using assms by (auto simp: Let_def calculateMove_def)

lemma completeFen_empty:
  assumes "completeFen x = []"
  shows "x = []"
proof (cases "2 \<le> length (split_sp x) \<and> length (split_sp x) \<le> 6")
  case True
  then have "length (split_sp (completeFen x)) = 6" by (simp add: completeFen_length)
  with assms show ?thesis by simp
next
  case False
  then have "completeFen x = x" by (intro completeFen_outside) linarith
  with assms show ?thesis by simp
qed

lemma completeFen_with_side_nonempty: "completeFen (fen @ sideToMove p) \<noteq> []"
  using completeFen_empty [of "fen @ sideToMove p"] sideToMove_cases [of p] by auto

lemma sendMoveWithDelay_keeps:
  "isCalculating (sendMoveWithDelay rnd m s) = isCalculating s
   \<and> isEngineReady (sendMoveWithDelay rnd m s) = isEngineReady s
   \<and> currentFen (sendMoveWithDelay rnd m s) = currentFen s
   \<and> lastCalculatedFen (sendMoveWithDelay rnd m s) = lastCalculatedFen s
   \<and> enginePosts (sendMoveWithDelay rnd m s) = enginePosts s
   \<and> settings (sendMoveWithDelay rnd m s) = settings s"
  by (simp add: sendMoveWithDelay_def)

lemma acceptBestMove_keeps:
  "isCalculating (acceptBestMove rnd now m s) = isCalculating s
   \<and> isEngineReady (acceptBestMove rnd now m s) = isEngineReady s
   \<and> currentFen (acceptBestMove rnd now m s) = currentFen s
   \<and> lastCalculatedFen (acceptBestMove rnd now m s) = lastCalculatedFen s
   \<and> enginePosts (acceptBestMove rnd now m s) = enginePosts s
   \<and> settings (acceptBestMove rnd now m s) = settings s"
  by (simp add: acceptBestMove_def Let_def log_msg_def sendMoveWithDelay_keeps)

lemma engineOnMessage_keeps:
  "isEngineReady (engineOnMessage rnd now message s) = isEngineReady s
   \<and> currentFen (engineOnMessage rnd now message s) = currentFen s
   \<and> lastCalculatedFen (engineOnMessage rnd now message s) = lastCalculatedFen s
   \<and> enginePosts (engineOnMessage rnd now message s) = enginePosts s
   \<and> settings (engineOnMessage rnd now message s) = settings s"
  by (simp add: engineOnMessage_def Let_def acceptBestMove_keeps split: option.splits)

lemma engineOnMessage_idle:
  "includes_str message ''bestmove'' \<Longrightarrow> \<not> isCalculating (engineOnMessage rnd now message s)"
  by (simp add: engineOnMessage_def Let_def acceptBestMove_keeps split: option.splits)

lemma engineLines_keeps:
  "isEngineReady (engineLines ls s) = isEngineReady s
   \<and> currentFen (engineLines ls s) = currentFen s
   \<and> lastCalculatedFen (engineLines ls s) = lastCalculatedFen s
   \<and> enginePosts (engineLines ls s) = enginePosts s
   \<and> settings (engineLines ls s) = settings s"
  by (induction ls s rule: engineLines.induct) (simp_all add: engineOnMessage_keeps)

lemma calculateMove_noop:
  "\<not> isEngineReady s \<or> isCalculating s \<or> lastCalculatedFen s = Some (currentFen s)
   \<Longrightarrow> calculateMove s = s"
  by (auto simp: calculateMove_def)

lemma positionUpdate_repeat:
  assumes "currentFen s = completeFen (fen @ sideToMove p)"
    and "lastCalculatedFen s = Some (currentFen s)"
  shows "positionUpdate (Some (Body (Some fen) p)) s = s"
  using assms by (simp add: Let_def calculateMove_def)

lemma positionUpdate_first:
  assumes "isEngineReady s" "\<not> isCalculating s"
    and "lastCalculatedFen s \<noteq> Some (completeFen (fen @ sideToMove p))"
  shows "lastCalculatedFen (positionUpdate (Some (Body (Some fen) p)) s)
           = Some (completeFen (fen @ sideToMove p))"
  using assms completeFen_with_side_nonempty [of fen p]
  by (simp add: Let_def calculateMove_def)

lemma positionUpdate_posts:
  "enginePosts (positionUpdate (Some (Body (Some fen) p)) s) = enginePosts s
   \<or> enginePosts (positionUpdate (Some (Body (Some fen) p)) s)
       = enginePosts s @ [PositionFen (completeFen (fen @ sideToMove p)),
            GoDepthMovetime (depth (settings s)) (timeLimitMs (settings s))]"
  by (simp add: Let_def calculateMove_def)

lemma positionUpdate_not_admitted:
  assumes "\<not> (isEngineReady s \<and> \<not> isCalculating s
              \<and> lastCalculatedFen s \<noteq> Some (completeFen (fen @ sideToMove p)))"
  shows "positionUpdate (Some (Body (Some fen) p)) s
         = s\<lparr>currentFen := completeFen (fen @ sideToMove p)\<rparr>"
  using assms by (auto simp: Let_def calculateMove_def)

lemmas panel_defs = onMinDelayChange_def onMaxDelayChange_def onHumanToggle_def or_else_def
  initialState_def defaultSettings_def

section \<open>Facts about double rounding\<close>

lemma roundHalfEven_int [simp]: "roundHalfEven (of_int k) = k"
  by (simp add: roundHalfEven_def)

lemma roundHalfEven_zero [simp]: "roundHalfEven 0 = 0"
  using roundHalfEven_int [of 0] by simp

lemma roundHalfEven_nonneg: "0 \<le> q \<Longrightarrow> 0 \<le> roundHalfEven q"
  by (auto simp: roundHalfEven_def Let_def)

lemma roundHalfEven_below:
  assumes "q < of_int N - 1/2"
  shows "roundHalfEven q \<le> N - 1"
proof -
  have "q < of_int N" using assms by simp
  then have n: "\<lfloor>q\<rfloor> \<le> N - 1" by (simp add: floor_less_iff)
  show ?thesis
  proof (cases "\<lfloor>q\<rfloor> = N - 1")
    case True
    then have "q - of_int \<lfloor>q\<rfloor> < 1/2" using assms by simp
    then show ?thesis using True by (simp add: roundHalfEven_def Let_def)
  next
    case False
    with n have "\<lfloor>q\<rfloor> + 1 \<le> N - 1" by simp
    then show ?thesis by (auto simp: roundHalfEven_def Let_def)
  qed
qed

lemma halvings_lower: "1 \<le> a \<Longrightarrow> 2 ^ halvings n a \<le> a"
  by (induction n a rule: halvings.induct) auto

lemma halvings_upper: "a < 2 ^ Suc n \<Longrightarrow> a < 2 ^ Suc (halvings n a)"
  by (induction n a rule: halvings.induct) auto

lemma halvings_le: "halvings n a \<le> n"
  by (induction n a rule: halvings.induct) auto

lemma doublings_upper: "a < 1 \<Longrightarrow> a * 2 ^ doublings n a < 2"
proof (induction n arbitrary: a)
  case 0
  then show ?case by simp
next
  case (Suc n)
  show ?case
  proof (cases "2 * a < 1")
    case True
    from Suc.IH [OF True] Suc.prems show ?thesis by (simp add: mult.assoc mult.left_commute)
  next
    case False
    then have "doublings n (2 * a) = 0" by (cases n) auto
    with Suc.prems show ?thesis by simp
  qed
qed

lemma doublings_lower: "a < 1 \<Longrightarrow> 1 \<le> a * 2 ^ n \<Longrightarrow> 1 \<le> a * 2 ^ doublings n a"
proof (induction n arbitrary: a)
  case 0
  then show ?case by simp
next
  case (Suc n)
  show ?case
  proof (cases "2 * a < 1")
    case True
    have "1 \<le> 2 * a * 2 ^ n" using Suc.prems(2) by (simp add: mult.assoc mult.left_commute)
    from Suc.IH [OF True this] Suc.prems show ?thesis
      by (simp add: mult.assoc mult.left_commute)
  next
    case False
    then have "doublings n (2 * a) = 0" by (cases n) auto
    with Suc.prems False show ?thesis by simp
  qed
qed

lemma doublings_le: "doublings n a \<le> n"
  by (induction n a rule: doublings.induct) auto

lemma doublings_pos: "a < 1 \<Longrightarrow> 0 < n \<Longrightarrow> 0 < doublings n a"
  by (cases n) auto

lemma binaryExponent_range: "- 1022 \<le> binaryExponent a \<and> binaryExponent a \<le> 1023"
  using halvings_le [of 1023 a] doublings_le [of 1022 a]
  by (simp add: binaryExponent_def)

lemma binaryExponent_lower:
  assumes "2 powi (- 1022) \<le> a"
  shows "2 powi binaryExponent a \<le> a"
proof (cases "1 \<le> a")
  case True
  then show ?thesis using halvings_lower [of a 1023] by (simp add: binaryExponent_def)
next
  case False
  then have a: "a < 1" by simp
  have "1 \<le> a * 2 ^ 1022" using assms by (simp add: power_int_def field_simps)
  from doublings_lower [OF a this]
  have "1 \<le> a * 2 ^ doublings 1022 a" .
  then have "1 / 2 ^ doublings 1022 a \<le> a" by (simp add: field_simps)
  moreover have "(2::real) powi (- int (doublings 1022 a)) = 1 / 2 ^ doublings 1022 a"
    by (simp add: power_int_minus field_simps)
  ultimately show ?thesis using False by (simp add: binaryExponent_def)
qed

lemma binaryExponent_lower_ge1:
  assumes "1 \<le> a"
  shows "2 powi binaryExponent a \<le> a"
  using assms halvings_lower [of a 1023] by (simp add: binaryExponent_def)

lemma binaryExponent_upper:
  assumes "a < 2 powi 1024"
  shows "a < 2 powi (binaryExponent a + 1)"
proof (cases "1 \<le> a")
  case True
  have "a < 2 ^ Suc 1023" using assms by (simp add: power_int_def)
  from halvings_upper [OF this] have "a < 2 ^ Suc (halvings 1023 a)" .
  moreover have "(2::real) powi (int (halvings 1023 a) + 1) = 2 ^ Suc (halvings 1023 a)"
    by (simp add: power_int_add)
  ultimately show ?thesis using True by (simp add: binaryExponent_def)
next
  case False
  then have a: "a < 1" by simp
  let ?k = "doublings 1022 a"
  have k: "0 < ?k" using a by (intro doublings_pos) simp_all
  from doublings_upper [OF a] have "a * 2 ^ ?k < 2" .
  then have "a < 2 / 2 ^ ?k" by (simp add: field_simps)
  moreover have "(2::real) powi (- int ?k + 1) = 2 / 2 ^ ?k"
  proof -
    have "(2::real) powi (- int ?k + 1) = 2 powi (- int ?k) * 2 powi 1"
      by (rule power_int_add) simp
    then show ?thesis by (simp add: power_int_minus divide_inverse)
  qed
  ultimately show ?thesis using False by (simp add: binaryExponent_def)
qed

lemma binaryExponent_neg: "a < 1 \<Longrightarrow> binaryExponent a \<le> - 1"
  using doublings_pos [of a 1022] by (simp add: binaryExponent_def)

lemma powi_less_exp: "(2::real) powi m < 2 powi n \<Longrightarrow> m < n"
proof (rule ccontr)
  assume l: "(2::real) powi m < 2 powi n" and "\<not> m < n"
  then have "n \<le> m" by simp
  then have "(2::real) powi n \<le> 2 powi m" by (rule power_int_increasing) simp
  with l show False by simp
qed

lemma powi_le_exp: "(2::real) powi m \<le> 2 powi n \<Longrightarrow> m \<le> n"
proof (rule ccontr)
  assume l: "(2::real) powi m \<le> 2 powi n" and "\<not> m \<le> n"
  then have "n < m" by simp
  then have "(2::real) powi n < 2 powi m" by (rule power_int_strict_increasing) simp
  with l show False by simp
qed

lemma powi_nonpos:
  assumes "u \<le> 0"
  shows "(2::real) powi u = inverse (2 ^ nat (- u))"
  using assms by (cases "u = 0") (simp_all add: power_int_def power_one_over inverse_eq_divide)

lemma binaryExponent_eq:
  assumes "2 powi E \<le> a" "a < 2 powi (E + 1)" "- 1022 \<le> E" "E \<le> 1023"
  shows "binaryExponent a = E"
proof -
  let ?F = "binaryExponent a"
  have "(2::real) powi (- 1022) \<le> 2 powi E" using assms(3) by (intro power_int_increasing) simp_all
  with assms(1) have lo: "2 powi ?F \<le> a" by (intro binaryExponent_lower) simp
  have "(2::real) powi (E + 1) \<le> 2 powi 1024"
    using assms(4) by (intro power_int_increasing) simp_all
  with assms(2) have hi: "a < 2 powi (?F + 1)" by (intro binaryExponent_upper) simp
  from lo assms(2) have "(2::real) powi ?F < 2 powi (E + 1)" by simp
  then have 1: "?F < E + 1" by (rule powi_less_exp)
  from assms(1) hi have "(2::real) powi E < 2 powi (?F + 1)" by simp
  then have 2: "E < ?F + 1" by (rule powi_less_exp)
  from 1 2 show ?thesis by simp
qed

lemma roundDouble_alt:
  "roundDouble x = of_int (roundHalfEven (x / 2 powi ulpExponent x)) * 2 powi ulpExponent x"
  by (rule roundDouble_def)

lemma roundDouble_nonneg: "0 \<le> x \<Longrightarrow> 0 \<le> roundDouble x"
  by (simp add: roundDouble_alt roundHalfEven_nonneg)

lemma roundDouble_multiple:
  assumes "x = of_int k * 2 powi ulpExponent x"
  shows "roundDouble x = x"
proof -
  have "x / 2 powi ulpExponent x = of_int k"
    using assms by (simp add: field_simps)
  then show ?thesis using assms by (simp add: roundDouble_alt)
qed

lemma roundDouble_zero [simp]: "roundDouble 0 = 0"
  by (simp add: roundDouble_alt)

lemma binaryExponent_le:
  assumes "a \<le> 2 powi N" "0 \<le> N"
  shows "binaryExponent a \<le> N"
proof (cases "1 \<le> a")
  case True
  then have "2 powi binaryExponent a \<le> a"
    by (rule binaryExponent_lower_ge1)
  with assms(1) have "(2::real) powi binaryExponent a \<le> 2 powi N" by simp
  then show ?thesis by (rule powi_le_exp)
next
  case False
  then have "binaryExponent a \<le> - 1" by (intro binaryExponent_neg) simp
  with assms(2) show ?thesis by simp
qed

lemma roundDouble_int:
  assumes "\<bar>n\<bar> \<le> 2 ^ 53"
  shows "roundDouble (of_int n) = of_int n"
proof (cases "n = 0")
  case True
  then show ?thesis by simp
next
  case False
  let ?x = "real_of_int n"
  let ?E = "binaryExponent \<bar>?x\<bar>"
  let ?u = "ulpExponent ?x"
  have a1: "1 \<le> \<bar>?x\<bar>" using False by (simp flip: of_int_abs)
  have a2: "\<bar>?x\<bar> \<le> 2 powi 53" using assms by (simp flip: of_int_abs of_int_power add: of_int_le_iff [symmetric] del: of_int_le_iff)
  have E: "?E \<le> 53" using a2 by (rule binaryExponent_le) simp
  show ?thesis
  proof (cases "?E = 53")
    case True
    have "2 powi ?E \<le> \<bar>?x\<bar>"
      using a1 by (rule binaryExponent_lower_ge1)
    with True a2 have "\<bar>?x\<bar> = 2 ^ 53" by simp
    then have "?x = of_int (sgn n * 2 ^ 52) * 2 powi 1"
      by (cases "0 \<le> n") (simp_all add: sgn_if)
    moreover have "?u = 1" using True by (simp add: ulpExponent_def)
    ultimately have "?x = of_int (sgn n * 2 ^ 52) * 2 powi ?u" by simp
    then show ?thesis by (rule roundDouble_multiple)
  next
    case False
    with E have u: "?u \<le> 0" by (simp add: ulpExponent_def)
    have "(2::real) powi ?u = inverse (2 ^ nat (- ?u))"
      using u by (rule powi_nonpos)
    then have "?x = of_int (n * 2 ^ nat (- ?u)) * 2 powi ?u" by simp
    then show ?thesis by (rule roundDouble_multiple)
  qed
qed

lemma roundDouble_below:
  assumes "0 \<le> x" "1 \<le> d" "d \<le> 2 ^ 53" "x \<le> of_int d - of_int d / 2 ^ 53"
  shows "roundDouble x < of_int d"
proof -
  let ?D = "real_of_int d"
  let ?E = "binaryExponent \<bar>x\<bar>"
  let ?u = "ulpExponent x"
  have D1: "1 \<le> ?D" using assms(2) by simp
  have D2: "?D \<le> 2 powi 53" using assms(3) by (simp add: of_int_le_iff [symmetric] del: of_int_le_iff)
  have xD: "x < ?D" using assms(4) D1 by (smt (verit) divide_pos_pos zero_less_power)
  have ax: "\<bar>x\<bar> = x" using assms(1) by simp
  have E: "?E \<le> 52 \<and> 2 powi ?E < ?D"
  proof (cases "1 \<le> x")
    case True
    then have lo: "2 powi ?E \<le> x" unfolding ax
      by (rule binaryExponent_lower_ge1)
    with xD D2 have "(2::real) powi ?E < 2 powi 53" by simp
    then have "?E < 53" by (rule powi_less_exp)
    with lo xD show ?thesis by simp
  next
    case False
    then have n: "?E \<le> - 1" unfolding ax by (intro binaryExponent_neg) simp
    then have "(2::real) powi ?E \<le> 2 powi (- 1)" by (intro power_int_increasing) simp_all
    then have "(2::real) powi ?E < 1" by (simp add: power_int_minus)
    with n D1 show ?thesis by simp
  qed
  then have u: "?u \<le> 0" by (simp add: ulpExponent_def)
  define N where "N = d * 2 ^ nat (- ?u)"
  have pu: "(2::real) powi ?u = inverse (2 ^ nat (- ?u))"
    using u by (rule powi_nonpos)
  have pos: "0 < (2::real) powi ?u" by simp
  have N: "of_int N * 2 powi ?u = ?D" by (simp add: N_def pu)
  have half: "2 powi ?u / 2 < ?D / 2 ^ 53"
  proof -
    have "(2::real) powi ?E = 2 powi (?u + 52)" by (simp add: ulpExponent_def)
    also have "\<dots> = 2 powi ?u * 2 powi 52" by (rule power_int_add) simp
    finally have "2 powi ?u * 2 ^ 52 < ?D" using E by simp
    then show ?thesis by (simp add: field_simps)
  qed
  have "x < ?D - 2 powi ?u / 2" using assms(4) half by simp
  then have "x / 2 powi ?u < (?D - 2 powi ?u / 2) / 2 powi ?u"
    using pos by (simp add: divide_strict_right_mono)
  also have "\<dots> = of_int N - 1 / 2"
    using pos N by (simp add: field_simps)
  finally have "roundHalfEven (x / 2 powi ?u) \<le> N - 1" by (rule roundHalfEven_below)
  then have "real_of_int (roundHalfEven (x / 2 powi ?u)) \<le> of_int N - 1"
    by (metis of_int_1 of_int_diff of_int_le_iff)
  then have "roundDouble x \<le> (of_int N - 1) * 2 powi ?u"
    using pos by (simp add: roundDouble_alt mult_right_mono)
  also have "\<dots> = ?D - 2 powi ?u" using N by (simp add: algebra_simps)
  also have "\<dots> < ?D" using pos by simp
  finally show ?thesis .
qed

lemma double_below_one:
  assumes "roundDouble r = r" "0 \<le> r" "r < 1"
  shows "r \<le> 1 - 1 / 2 ^ 53"
proof -
  let ?E = "binaryExponent \<bar>r\<bar>"
  let ?u = "ulpExponent r"
  have ar: "\<bar>r\<bar> = r" using assms(2) by simp
  have E: "?E \<le> - 1" unfolding ar using assms(3) by (rule binaryExponent_neg)
  show ?thesis
  proof (cases "?E = - 1")
    case True
    then have u: "?u = - 53" by (simp add: ulpExponent_def)
    define k where "k = roundHalfEven (r / 2 powi ?u)"
    from assms(1) have "of_int k * 2 powi ?u = r"
      unfolding k_def roundDouble_alt .
    then have "r = of_int k * 2 powi (- 53)" unfolding u by simp
    also have "(2::real) powi (- 53) = inverse (2 ^ 53)" by simp
    finally have r: "r = of_int k / 2 ^ 53" by (simp only: divide_inverse)
    have "real_of_int k / 2 ^ 53 < 1" using assms(3) r by simp
    then have "real_of_int k < real_of_int (2 ^ 53)" by simp
    then have "k < 2 ^ 53" by (simp only: of_int_less_iff)
    then have "k \<le> 2 ^ 53 - 1" by simp
    then have "real_of_int k \<le> real_of_int (2 ^ 53 - 1)" by (simp only: of_int_le_iff)
    then have "real_of_int k / 2 ^ 53 \<le> 1 - 1 / 2 ^ 53" by simp
    then show ?thesis using r by simp
  next
    case False
    with E have "?E + 1 \<le> - 1" by simp
    then have "(2::real) powi (?E + 1) \<le> 2 powi (- 1)" by (intro power_int_increasing) simp_all
    moreover have "r < 2 powi (?E + 1)"
    proof -
      have "(2::real) powi 0 \<le> 2 powi 1024" by (rule power_int_increasing) simp_all
      with assms(3) have "\<bar>r\<bar> < 2 powi 1024" using ar by simp
      then have "\<bar>r\<bar> < 2 powi (?E + 1)" by (rule binaryExponent_upper)
      then show ?thesis using ar by simp
    qed
    ultimately have "r < 1 / 2" by (simp add: power_int_minus)
    then show ?thesis by simp
  qed
qed

lemma roundDouble_half: "roundDouble (1/2) = 1/2"
proof -
  have "binaryExponent \<bar>1/2\<bar> = - 1"
    by (rule binaryExponent_eq) simp_all
  then have u: "ulpExponent (1/2) = - 53" by (simp add: ulpExponent_def)
  have "(1/2::real) = of_int (2 ^ 52) * 2 powi (- 53)" by simp
  then have "(1/2::real) = of_int (2 ^ 52) * 2 powi ulpExponent (1/2)" unfolding u .
  then show ?thesis by (rule roundDouble_multiple)
qed

lemma roundDouble_tie_beyond: "roundDouble 9007199254740995 = 9007199254740996"
proof -
  have "binaryExponent \<bar>9007199254740995\<bar> = 53"
    by (rule binaryExponent_eq) simp_all
  then have u: "ulpExponent 9007199254740995 = 1" by (simp add: ulpExponent_def)
  have "roundHalfEven (9007199254740995 / 2) = 4503599627370498"
    by (simp add: roundHalfEven_def Let_def)
  then show ?thesis by (simp add: roundDouble_alt u)
qed

lemma delay_human_range:
  assumes "roundDouble rnd = rnd" "0 \<le> rnd" "rnd < 1"
    and "humanLikeTiming st" "0 \<le> minDelay st" "minDelay st < maxDelay st"
    and "maxDelay st \<le> 2 ^ 53"
  shows "minDelay st \<le> delay rnd st \<and> delay rnd st < maxDelay st"
proof -
  let ?d = "maxDelay st - minDelay st"
  let ?D = "real_of_int ?d"
  have d: "1 \<le> ?d" "?d \<le> 2 ^ 53" using assms(5-7) by simp_all
  have rd: "roundDouble ?D = ?D" using d by (intro roundDouble_int) simp
  have D0: "0 \<le> ?D" using d by simp
  have r1: "rnd \<le> 1 - 1 / 2 ^ 53" using assms(1-3) by (rule double_below_one)
  have x0: "0 \<le> rnd * ?D" using assms(2) D0 by (rule mult_nonneg_nonneg)
  have id: "(1 - 1 / 2 ^ 53) * x = x - x / 2 ^ 53" for x :: real
    by (simp add: left_diff_distrib)
  have x1: "rnd * ?D \<le> ?D - ?D / 2 ^ 53"
    using mult_right_mono [OF r1 D0] unfolding id .
  let ?y = "roundDouble (rnd * ?D)"
  have y0: "0 \<le> ?y" using x0 by (rule roundDouble_nonneg)
  have y1: "?y < ?D" using x0 d x1 by (rule roundDouble_below)
  let ?k = "\<lfloor>?y\<rfloor>"
  have k0: "0 \<le> ?k" using y0 by simp
  have k1: "?k < ?d" using y1 by (simp only: floor_less_iff)
  have "\<bar>?k + minDelay st\<bar> \<le> 2 ^ 53" using k0 k1 assms(5,7) by simp
  then have "roundDouble (of_int (?k + minDelay st)) = of_int (?k + minDelay st)"
    by (rule roundDouble_int)
  then have s: "roundDouble (of_int ?k + of_int (minDelay st)) = of_int (?k + minDelay st)"
    by (simp only: of_int_add)
  have "delay rnd st = \<lfloor>roundDouble (of_int ?k + of_int (minDelay st))\<rfloor>"
    using assms(4) rd by (simp only: delay_def if_True)
  also have "\<dots> = ?k + minDelay st" unfolding s by (rule floor_of_int)
  finally show ?thesis using k0 k1 by simp
qed

lemma delay_human_equal:
  assumes "humanLikeTiming st" "minDelay st = maxDelay st" "\<bar>minDelay st\<bar> \<le> 2 ^ 53"
  shows "delay rnd st = minDelay st"
proof -
  have "roundDouble (of_int (minDelay st)) = of_int (minDelay st)"
    using assms(3) by (rule roundDouble_int)
  then show ?thesis using assms(1,2) by (simp add: delay_def)
qed

section \<open>Claims\<close>

text \<open>
  C1. The engine line \<^verbatim>\<open>bestmove (none)\<close> is stored before it is tested: whatever the state,
  \<open>bestMove\<close> is then the string \<^verbatim>\<open>(none)\<close>, not \<^verbatim>\<open>null\<close>. In the stalemate run the
  auto-move path starts no timer, but a click on Play afterwards does, and when that timer
  expires the frame with the move \<^verbatim>\<open>(none)\<close> goes out on the socket.
\<close>

theorem C1_none_token_stored_and_played:
  "bestMove (engineOnMessage rnd now ''bestmove (none)'' s) = Some ''(none)''
   \<and> autoMove (settings stalemateScenario)
   \<and> timers (engineOnMessage rnd now ''bestmove (none)'' stalemateScenario) = []
   \<and> socketSent (engineOnMessage rnd now ''bestmove (none)'' stalemateScenario) = []
   \<and> socketSent
        (timerExpires 0
           (onPlayClick rnd' (engineOnMessage rnd now ''bestmove (none)'' stalemateScenario)))
       = [MoveFrame ''(none)'' 1 10000 1]"
  by (simp add: stalemateScenario_def scenario_defs dispatch_defs Let_def)

text \<open>
  C2 as stated fails: in the run where the socket closes while the timer is pending, the
  timer expires, the send fails (nothing goes out, the failure is logged) and \<open>bestMove\<close>
  still holds the move.
\<close>

theorem C2_counterexample:
  "timers pendingMoveScenario = [(500, ''e2e4'')]
   \<and> socketSent (timerExpires 0 pendingMoveScenario) = []
   \<and> logs (timerExpires 0 pendingMoveScenario) = logs pendingMoveScenario @ [LogNotConnected]
   \<and> bestMove (timerExpires 0 pendingMoveScenario) = Some ''e2e4''"
  by (simp add: pendingMoveScenario_def scenario_defs dispatch_defs Let_def)

text \<open>
  C2, amended. When the timer of a scheduled dispatch expires and \<open>sendMove\<close> is called,
  \<open>bestMove\<close> is cleared exactly when the send succeeded, and is left as it was when it
  failed; a frame goes out exactly when the send succeeded; the call writes one line, which
  on failure names the failure (socket not connected, invalid move, or the error raised by
  the socket); and no timer is started, so nothing is retried.
\<close>

theorem C2_bestMove_cleared_on_success_only:
  "bestMove (timerCallback move s) = (if fst (sendMove move s) then None else bestMove s)
   \<and> socketSent (timerCallback move s)
       = (if fst (sendMove move s) then socketSent s @ [MoveFrame move 1 10000 1]
          else socketSent s)
   \<and> logs (timerCallback move s) = logs s @ [sendOutcome move s]
   \<and> fst (sendMove move s) = (sendOutcome move s = LogMoveSent move)
   \<and> timers (timerCallback move s) = timers s"
  by (simp add: timerCallback_def sendMove_bestMove sendMove_socketSent sendMove_logs
      sendMove_timers sendMove_result)

theorem C2_bestMove_cleared_on_success_only_witness:
  "bestMove (timerCallback ''e2e4'' pendingMoveScenario) = Some ''e2e4''
   \<and> socketSent (timerCallback ''e2e4'' pendingMoveScenario) = []
   \<and> logs (timerCallback ''e2e4'' pendingMoveScenario)
       = logs pendingMoveScenario @ [LogNotConnected]
   \<and> timers (timerCallback ''e2e4'' pendingMoveScenario) = [(500, ''e2e4'')]"
proof -
  have f: "\<not> fst (sendMove ''e2e4'' pendingMoveScenario)"
    by (simp add: sendMove_def pendingMoveScenario_fields)
  have o: "sendOutcome ''e2e4'' pendingMoveScenario = LogNotConnected"
    by (simp add: sendOutcome_def pendingMoveScenario_fields)
  from C2_bestMove_cleared_on_success_only [of "''e2e4''" pendingMoveScenario] f o
    pendingMoveScenario_fields
  show ?thesis by simp
qed

text \<open>
  C3 as stated fails when fields are whitespace-separated: a string of two fields with two
  spaces between them is cut by \<^verbatim>\<open>split(' ')\<close> into three parts, so only \<open>-\<close>, \<open>0\<close>, \<open>1\<close> are
  pushed and the result has five fields; a string of four fields separated by double
  spaces is cut into seven parts and returned as it is, with four fields.
\<close>

theorem C3_counterexample:
  "whitespace_fields ''8/8/8/8/8/8/8/8  w'' = [''8/8/8/8/8/8/8/8'', ''w'']
   \<and> completeFen ''8/8/8/8/8/8/8/8  w'' = ''8/8/8/8/8/8/8/8  w - 0 1''
   \<and> whitespace_fields (completeFen ''8/8/8/8/8/8/8/8  w'')
       = [''8/8/8/8/8/8/8/8'', ''w'', ''-'', ''0'', ''1'']
   \<and> whitespace_fields ''8/8  w  -  -'' = [''8/8'', ''w'', ''-'', ''-'']
   \<and> completeFen ''8/8  w  -  -'' = ''8/8  w  -  -''"
  by (simp add: completeFen_def push_when_def is_whitespace_def)

text \<open>
  C3, amended. For every input that \<^verbatim>\<open>split(' ')\<close> cuts into 2 to 6 parts, \<open>completeFen\<close>
  returns a string that \<^verbatim>\<open>split(' ')\<close> cuts into exactly 6 parts; the parts of the input are
  the first parts of the result, unaltered and in place; the missing ones are, from left
  to right, the defaults \<open>-\<close>, \<open>-\<close>, \<open>0\<close>, \<open>1\<close> of the third to sixth field; and completing
  twice is completing once. When the fields of the input are separated by single spaces
  and nothing else (every part plain), the parts are the whitespace-separated fields, of
  the input and of the result alike.
\<close>

theorem C3_completeFen_total:
  assumes "2 \<le> length (split_sp x)" and "length (split_sp x) \<le> 6"
  shows "length (split_sp (completeFen x)) = 6
       \<and> split_sp (completeFen x)
           = split_sp x @ drop (length (split_sp x) - 2) [''-'', ''-'', ''0'', ''1'']
       \<and> completeFen (completeFen x) = completeFen x
       \<and> ((\<forall>p \<in> set (split_sp x). plain_field p)
            \<longrightarrow> whitespace_fields x = split_sp x
                \<and> whitespace_fields (completeFen x) = split_sp (completeFen x))"
  using assms completeFen_length completeFen_parts completeFen_idem
    whitespace_fields_split [of x] completeFen_whitespace_fields [of x]
  by (simp add: fen_defaults_def)

theorem C3_completeFen_total_witness:
  "split_sp ''8/8/8/8/8/8/8/8 b -'' = [''8/8/8/8/8/8/8/8'', ''b'', ''-'']
   \<and> plain_field ''8/8/8/8/8/8/8/8'' \<and> plain_field ''b'' \<and> plain_field ''-''
   \<and> whitespace_fields ''8/8/8/8/8/8/8/8 b -'' = [''8/8/8/8/8/8/8/8'', ''b'', ''-'']
   \<and> completeFen ''8/8/8/8/8/8/8/8 b -'' = ''8/8/8/8/8/8/8/8 b - - 0 1''
   \<and> whitespace_fields (completeFen ''8/8/8/8/8/8/8/8 b -'')
       = [''8/8/8/8/8/8/8/8'', ''b'', ''-'', ''-'', ''0'', ''1'']
   \<and> completeFen (completeFen ''8/8/8/8/8/8/8/8 b -'') = completeFen ''8/8/8/8/8/8/8/8 b -''"
proof -
  have s: "split_sp ''8/8/8/8/8/8/8/8 b -'' = [''8/8/8/8/8/8/8/8'', ''b'', ''-'']"
    by simp
  have c: "completeFen ''8/8/8/8/8/8/8/8 b -'' = ''8/8/8/8/8/8/8/8 b - - 0 1''"
    by (simp add: completeFen_def push_when_def)
  have f: "plain_field ''8/8/8/8/8/8/8/8'' \<and> plain_field ''b'' \<and> plain_field ''-''"
    by (simp add: plain_field_def is_whitespace_def)
  have h1: "2 \<le> length (split_sp ''8/8/8/8/8/8/8/8 b -'')" using s by simp
  have h2: "length (split_sp ''8/8/8/8/8/8/8/8 b -'') \<le> 6" using s by simp
  have h3: "\<forall>p \<in> set (split_sp ''8/8/8/8/8/8/8/8 b -''). plain_field p"
    using s f by simp
  from C3_completeFen_total [OF h1 h2] h3
  have "whitespace_fields ''8/8/8/8/8/8/8/8 b -'' = split_sp ''8/8/8/8/8/8/8/8 b -''
        \<and> whitespace_fields (completeFen ''8/8/8/8/8/8/8/8 b -'')
            = split_sp ''8/8/8/8/8/8/8/8 b -'' @ [''-'', ''0'', ''1'']
        \<and> completeFen (completeFen ''8/8/8/8/8/8/8/8 b -'') = completeFen ''8/8/8/8/8/8/8/8 b -''"
    using s by simp
  with s c f show ?thesis by simp
qed

text \<open>
  C4 as stated fails: the opening position arrives as the piece placement alone, a
  descriptor of one field; it is not rejected but completed to six fields and submitted to
  the engine.
\<close>

theorem C4_counterexample:
  "length (split_sp ''rnbqkbnr/pppppppp/8/8/8/8/PPPPPPPP/RNBQKBNR'') < 2
   \<and> currentFen
        (socketOnMessage
           (Message ''move''
              (Some (Body (Some ''rnbqkbnr/pppppppp/8/8/8/8/PPPPPPPP/RNBQKBNR'') (Some 0))))
           connectedReady)
       = ''rnbqkbnr/pppppppp/8/8/8/8/PPPPPPPP/RNBQKBNR w - - 0 1''
   \<and> enginePosts
        (socketOnMessage
           (Message ''move''
              (Some (Body (Some ''rnbqkbnr/pppppppp/8/8/8/8/PPPPPPPP/RNBQKBNR'') (Some 0))))
           connectedReady)
       = enginePosts connectedReady
           @ [PositionFen ''rnbqkbnr/pppppppp/8/8/8/8/PPPPPPPP/RNBQKBNR w - - 0 1'',
              GoDepthMovetime 4 1000]"
  by (simp add: scenario_defs Let_def)

text \<open>
  C4, amended. No state-update frame is rejected for the number of fields of its partial
  position, fewer than 2 included: whatever the descriptor, the tracker appends the side
  to move, so that what \<open>completeFen\<close> receives always has at least two parts, makes the
  completed string the current position, and submits it to the engine when the engine is
  ready and idle and the position is not the last one submitted. For a descriptor with no
  space character, which \<open>completeFen\<close> alone would return unchanged, the position is the
  descriptor followed by the side to move and \<open>- - 0 1\<close>.
\<close>

theorem C4_short_descriptor_is_completed:
  assumes "t = ''d'' \<or> t = ''move''"
  shows "currentFen (socketOnMessage (Message t (Some (Body (Some fen) p))) s)
           = completeFen (fen @ sideToMove p)
       \<and> 2 \<le> length (split_sp (fen @ sideToMove p))
       \<and> (isEngineReady s \<and> \<not> isCalculating s
            \<and> lastCalculatedFen s \<noteq> Some (completeFen (fen @ sideToMove p))
          \<longrightarrow> enginePosts (socketOnMessage (Message t (Some (Body (Some fen) p))) s)
                = enginePosts s
                    @ [PositionFen (completeFen (fen @ sideToMove p)),
                       GoDepthMovetime (depth (settings s)) (timeLimitMs (settings s))])
       \<and> (sp \<notin> set fen
          \<longrightarrow> completeFen fen = fen
              \<and> completeFen (fen @ sideToMove p) = fen @ sideToMove p @ '' - - 0 1'')"
proof -
  let ?m = "Message t (Some (Body (Some fen) p))"
  have u: "socketOnMessage ?m s = positionUpdate (Some (Body (Some fen) p)) s"
    using assms by (rule tracked_update)
  have 1: "currentFen (socketOnMessage ?m s) = completeFen (fen @ sideToMove p)"
    using u currentFen_positionUpdate [of fen p s] by (simp del: positionUpdate.simps)
  have 2: "2 \<le> length (split_sp (fen @ sideToMove p))"
    by (rule with_side_two_parts)
  have 3: "enginePosts (socketOnMessage ?m s)
           = enginePosts s
               @ [PositionFen (completeFen (fen @ sideToMove p)),
                  GoDepthMovetime (depth (settings s)) (timeLimitMs (settings s))]"
    if "isEngineReady s" "\<not> isCalculating s"
      "lastCalculatedFen s \<noteq> Some (completeFen (fen @ sideToMove p))"
    using that positionUpdate_submits [of s fen p] completeFen_with_side_nonempty [of fen p] u
    by (simp del: positionUpdate.simps)
  have 4: "completeFen fen = fen
           \<and> completeFen (fen @ sideToMove p) = fen @ sideToMove p @ '' - - 0 1''"
    if "sp \<notin> set fen"
    using no_space_one_part [OF that]
    by (simp add: completeFen_outside completeFen_one_field_with_side)
  from 1 2 3 4 show ?thesis by blast
qed

theorem C4_short_descriptor_is_completed_witness:
  "sp \<notin> set ''8/8/8/8/8/8/8/8''
   \<and> isEngineReady connectedReady \<and> \<not> isCalculating connectedReady
   \<and> lastCalculatedFen connectedReady = None
   \<and> completeFen ''8/8/8/8/8/8/8/8'' = ''8/8/8/8/8/8/8/8''
   \<and> currentFen
        (socketOnMessage (Message ''move'' (Some (Body (Some ''8/8/8/8/8/8/8/8'') (Some 3))))
           connectedReady)
       = ''8/8/8/8/8/8/8/8 b - - 0 1''
   \<and> enginePosts
        (socketOnMessage (Message ''move'' (Some (Body (Some ''8/8/8/8/8/8/8/8'') (Some 3))))
           connectedReady)
       = enginePosts connectedReady
           @ [PositionFen ''8/8/8/8/8/8/8/8 b - - 0 1'', GoDepthMovetime 4 1000]
   \<and> whitespace_fields ''8/8/8/8/8/8/8/8 '' = [''8/8/8/8/8/8/8/8'']
   \<and> enginePosts
        (socketOnMessage (Message ''move'' (Some (Body (Some ''8/8/8/8/8/8/8/8 '') (Some 0))))
           connectedReady)
       = enginePosts connectedReady
           @ [PositionFen ''8/8/8/8/8/8/8/8  w - 0 1'', GoDepthMovetime 4 1000]
   \<and> whitespace_fields [] = []
   \<and> enginePosts
        (socketOnMessage (Message ''move'' (Some (Body (Some []) (Some 0)))) connectedReady)
       = enginePosts connectedReady @ [PositionFen '' w - - 0 1'', GoDepthMovetime 4 1000]"
proof -
  have h: "''move'' = ''d'' \<or> ''move'' = ''move''" by simp
  have n: "sp \<notin> set ''8/8/8/8/8/8/8/8''" by simp
  have r: "isEngineReady connectedReady \<and> \<not> isCalculating connectedReady
           \<and> lastCalculatedFen connectedReady = None
           \<and> depth (settings connectedReady) = 4
           \<and> timeLimitMs (settings connectedReady) = 1000"
    by (simp add: scenario_defs)
  have b: "sideToMove (Some 3) = '' b''" "sideToMove (Some 0) = '' w''"
    by (simp_all add: sideToMove_parity)
  have c: "completeFen ''8/8/8/8/8/8/8/8  w'' = ''8/8/8/8/8/8/8/8  w - 0 1''"
    "completeFen '' w'' = '' w - - 0 1''"
    by (simp_all add: completeFen_def push_when_def)
  from C4_short_descriptor_is_completed [OF h, of "''8/8/8/8/8/8/8/8''" "Some 3" connectedReady]
    n r b
  have 1: "completeFen ''8/8/8/8/8/8/8/8'' = ''8/8/8/8/8/8/8/8''
     \<and> currentFen
        (socketOnMessage (Message ''move'' (Some (Body (Some ''8/8/8/8/8/8/8/8'') (Some 3))))
           connectedReady)
       = ''8/8/8/8/8/8/8/8 b - - 0 1''
     \<and> enginePosts
        (socketOnMessage (Message ''move'' (Some (Body (Some ''8/8/8/8/8/8/8/8'') (Some 3))))
           connectedReady)
       = enginePosts connectedReady
           @ [PositionFen ''8/8/8/8/8/8/8/8 b - - 0 1'', GoDepthMovetime 4 1000]"
    by simp
  from C4_short_descriptor_is_completed [OF h, of "''8/8/8/8/8/8/8/8 ''" "Some 0" connectedReady]
    r b c
  have 2: "enginePosts
        (socketOnMessage (Message ''move'' (Some (Body (Some ''8/8/8/8/8/8/8/8 '') (Some 0))))
           connectedReady)
       = enginePosts connectedReady
           @ [PositionFen ''8/8/8/8/8/8/8/8  w - 0 1'', GoDepthMovetime 4 1000]"
    by simp
  from C4_short_descriptor_is_completed [OF h, of "[]" "Some 0" connectedReady] r b c
  have 3: "enginePosts
        (socketOnMessage (Message ''move'' (Some (Body (Some []) (Some 0)))) connectedReady)
       = enginePosts connectedReady @ [PositionFen '' w - - 0 1'', GoDepthMovetime 4 1000]"
    by simp
  have w: "whitespace_fields ''8/8/8/8/8/8/8/8 '' = [''8/8/8/8/8/8/8/8'']"
    "whitespace_fields [] = []"
    by (simp_all add: is_whitespace_def)
  from n r 1 2 3 w show ?thesis by simp
qed

text \<open>
  C5 as stated fails: a partial position that already carries the side to move (\<open>b\<close>)
  gets a second indicator appended, derived from the ply.
\<close>

theorem C5_counterexample:
  "split_sp ''8/8/8/8/8/8/8/8 b'' = [''8/8/8/8/8/8/8/8'', ''b'']
   \<and> currentFen
        (socketOnMessage (Message ''move'' (Some (Body (Some ''8/8/8/8/8/8/8/8 b'') (Some 2))))
           connectedReady)
       = ''8/8/8/8/8/8/8/8 b w - 0 1''"
  by (simp add: scenario_defs Let_def)

text \<open>
  C5, amended. On a state-update frame the tracker appends a side-to-move indicator derived
  from \<open>ply mod 2\<close> (plies 0, 2, 4 give \<open>w\<close>; plies 1, 3, 5 give \<open>b\<close>), and it appends it
  always, whether or not the partial position already has one; the result is then
  completed.
\<close>

theorem C5_side_always_appended:
  assumes "t = ''d'' \<or> t = ''move''"
  shows "currentFen (socketOnMessage (Message t (Some (Body (Some fen) (Some ply)))) s)
           = completeFen (fen @ (if ply mod 2 = 0 then '' w'' else '' b''))
       \<and> sideToMove (Some 0) = '' w'' \<and> sideToMove (Some 2) = '' w''
       \<and> sideToMove (Some 4) = '' w'' \<and> sideToMove (Some 1) = '' b''
       \<and> sideToMove (Some 3) = '' b'' \<and> sideToMove (Some 5) = '' b''"
proof -
  have "currentFen (socketOnMessage (Message t (Some (Body (Some fen) (Some ply)))) s)
        = completeFen (fen @ sideToMove (Some ply))"
    using tracked_update [OF assms] currentFen_positionUpdate [of fen "Some ply" s]
    by (simp del: positionUpdate.simps)
  moreover have "sideToMove (Some ply) = (if ply mod 2 = 0 then '' w'' else '' b'')"
    by (simp add: sideToMove_parity even_iff_mod_2_eq_zero)
  ultimately show ?thesis by (simp add: sideToMove_parity)
qed

theorem C5_side_always_appended_witness:
  "currentFen
     (socketOnMessage (Message ''d'' (Some (Body (Some ''8/8/8/8/8/8/8/8 w'') (Some 5))))
        connectedReady)
   = ''8/8/8/8/8/8/8/8 w b - 0 1''"
proof -
  have h: "''d'' = ''d'' \<or> ''d'' = ''move''" by simp
  have c: "completeFen ''8/8/8/8/8/8/8/8 w b'' = ''8/8/8/8/8/8/8/8 w b - 0 1''"
    by (simp add: completeFen_def push_when_def)
  from C5_side_always_appended [OF h, of "''8/8/8/8/8/8/8/8 w''" 5 connectedReady] c
  show ?thesis by simp
qed

text \<open>
  C6. \<open>calculateMove\<close> changes nothing when the engine is not ready, when a calculation
  is in progress, or when the current position is, as a string, the last one submitted.
  Consequently, when the same state-update frame arrives twice, with any engine output
  handled in between, the engine is sent the position at most once, and exactly once when
  the first of the two was admitted (engine ready and idle, position not the last one
  submitted).
\<close>

theorem C6_submission_dedup:
  assumes "t = ''d'' \<or> t = ''move''"
  shows "(\<not> isEngineReady s \<or> isCalculating s \<or> lastCalculatedFen s = Some (currentFen s)
            \<longrightarrow> calculateMove s = s)
       \<and> (isEngineReady s \<and> \<not> isCalculating s
            \<and> lastCalculatedFen s \<noteq> Some (completeFen (fen @ sideToMove p))
          \<longrightarrow> enginePosts
                 (socketOnMessage (Message t (Some (Body (Some fen) p)))
                    (engineLines ls
                       (socketOnMessage (Message t (Some (Body (Some fen) p))) s)))
               = enginePosts s
                   @ [PositionFen (completeFen (fen @ sideToMove p)),
                      GoDepthMovetime (depth (settings s)) (timeLimitMs (settings s))])
       \<and> (enginePosts
            (socketOnMessage (Message t (Some (Body (Some fen) p)))
               (engineLines ls (socketOnMessage (Message t (Some (Body (Some fen) p))) s)))
           = enginePosts s
          \<or> enginePosts
              (socketOnMessage (Message t (Some (Body (Some fen) p)))
                 (engineLines ls (socketOnMessage (Message t (Some (Body (Some fen) p))) s)))
             = enginePosts s
                 @ [PositionFen (completeFen (fen @ sideToMove p)),
                    GoDepthMovetime (depth (settings s)) (timeLimitMs (settings s))])"
proof -
  let ?f = "Message t (Some (Body (Some fen) p))"
  let ?pos = "completeFen (fen @ sideToMove p)"
  have u: "\<And>s. socketOnMessage ?f s = positionUpdate (Some (Body (Some fen) p)) s"
    using assms by (rule tracked_update)
  have once: "enginePosts (socketOnMessage ?f (engineLines ls (socketOnMessage ?f s)))
              = enginePosts s
                  @ [PositionFen ?pos,
                     GoDepthMovetime (depth (settings s)) (timeLimitMs (settings s))]"
    if a: "isEngineReady s" "\<not> isCalculating s" "lastCalculatedFen s \<noteq> Some ?pos"
  proof -
    let ?s1 = "socketOnMessage ?f s"
    let ?s2 = "engineLines ls ?s1"
    have p1: "enginePosts ?s1 = enginePosts s
                @ [PositionFen ?pos,
                   GoDepthMovetime (depth (settings s)) (timeLimitMs (settings s))]"
      using a positionUpdate_submits [of s fen p] completeFen_with_side_nonempty [of fen p] u
      by (simp del: positionUpdate.simps)
    have c1: "currentFen ?s1 = ?pos"
      using u currentFen_positionUpdate [of fen p s] by (simp del: positionUpdate.simps)
    have l1: "lastCalculatedFen ?s1 = Some ?pos"
      using a positionUpdate_first [of s fen p] u by (simp del: positionUpdate.simps)
    have "currentFen ?s2 = ?pos" "lastCalculatedFen ?s2 = Some (currentFen ?s2)"
      using c1 l1 engineLines_keeps [of ls ?s1] by simp_all
    then have "socketOnMessage ?f ?s2 = ?s2"
      using u positionUpdate_repeat [of ?s2 fen p] by (simp del: positionUpdate.simps)
    then show ?thesis
      using p1 engineLines_keeps [of ls ?s1] by simp
  qed
  have atmost: "enginePosts (socketOnMessage ?f (engineLines ls (socketOnMessage ?f s)))
                  = enginePosts s
                \<or> enginePosts (socketOnMessage ?f (engineLines ls (socketOnMessage ?f s)))
                  = enginePosts s
                      @ [PositionFen ?pos,
                         GoDepthMovetime (depth (settings s)) (timeLimitMs (settings s))]"
  proof (cases "isEngineReady s \<and> \<not> isCalculating s \<and> lastCalculatedFen s \<noteq> Some ?pos")
    case True
    then show ?thesis using once by blast
  next
    case False
    let ?s1 = "s\<lparr>currentFen := ?pos\<rparr>"
    have s1: "socketOnMessage ?f s = ?s1"
      using u positionUpdate_not_admitted [OF False] by (simp del: positionUpdate.simps)
    have k: "enginePosts (engineLines ls ?s1) = enginePosts s"
      "settings (engineLines ls ?s1) = settings s"
      using engineLines_keeps [of ls ?s1] by simp_all
    show ?thesis
      using positionUpdate_posts [of fen p "engineLines ls ?s1"] u s1 k
      by (simp del: positionUpdate.simps)
  qed
  from calculateMove_noop [of s] once atmost show ?thesis by blast
qed

theorem C6_submission_dedup_witness:
  "isCalculating stalemateScenario
   \<and> calculateMove stalemateScenario = stalemateScenario
   \<and> isEngineReady connectedReady \<and> \<not> isCalculating connectedReady
   \<and> lastCalculatedFen connectedReady = None
   \<and> enginePosts
        (socketOnMessage (Message ''move'' (Some (Body (Some ''8/8/8/8/8/8/8/8'') (Some 0))))
           (engineLines [(0, 0, ''info depth 4 score cp 0''), (0, 0, ''bestmove (none)'')]
              (socketOnMessage
                 (Message ''move'' (Some (Body (Some ''8/8/8/8/8/8/8/8'') (Some 0))))
                 connectedReady)))
       = enginePosts connectedReady
           @ [PositionFen ''8/8/8/8/8/8/8/8 w - - 0 1'', GoDepthMovetime 4 1000]"
proof -
  have h: "''move'' = ''d'' \<or> ''move'' = ''move''" by simp
  have r: "isEngineReady connectedReady \<and> \<not> isCalculating connectedReady
           \<and> lastCalculatedFen connectedReady = None
           \<and> depth (settings connectedReady) = 4
           \<and> timeLimitMs (settings connectedReady) = 1000"
    by (simp add: scenario_defs)
  have c: "completeFen (''8/8/8/8/8/8/8/8'' @ sideToMove (Some 0)) = ''8/8/8/8/8/8/8/8 w - - 0 1''"
    by (simp add: completeFen_def push_when_def sideToMove_parity)
  have g: "isCalculating stalemateScenario"
    by (simp add: stalemateScenario_def scenario_defs Let_def)
  from C6_submission_dedup [OF h, of stalemateScenario] g
  have 1: "calculateMove stalemateScenario = stalemateScenario"
    by blast
  from C6_submission_dedup [OF h, of connectedReady "''8/8/8/8/8/8/8/8''" "Some 0"
      "[(0, 0, ''info depth 4 score cp 0''), (0, 0, ''bestmove (none)'')]"] r c
  have 2: "enginePosts
        (socketOnMessage (Message ''move'' (Some (Body (Some ''8/8/8/8/8/8/8/8'') (Some 0))))
           (engineLines [(0, 0, ''info depth 4 score cp 0''), (0, 0, ''bestmove (none)'')]
              (socketOnMessage
                 (Message ''move'' (Some (Body (Some ''8/8/8/8/8/8/8/8'') (Some 0))))
                 connectedReady)))
       = enginePosts connectedReady
           @ [PositionFen ''8/8/8/8/8/8/8/8 w - - 0 1'', GoDepthMovetime 4 1000]"
    by simp
  from g 1 2 r show ?thesis by simp
qed

text \<open>
  C7. The write of the maximal delay clamps it to the minimal delay plus 100, and the
  defaults satisfy the invariant; the write of the minimal delay clamps only against 100
  and leaves the maximal delay alone. Setting the minimal delay to 3000 under the default
  maximal delay of 2000 stores the pair (3000, 2000), and the next dispatch computes its
  delay from that pair.
\<close>

theorem C7_minDelay_write_breaks_invariant:
  "minDelay (getSettings None) + 100 \<le> maxDelay (getSettings None)
   \<and> minDelay (settings (onMaxDelayChange v s)) + 100 \<le> maxDelay (settings (onMaxDelayChange v s))
   \<and> minDelay (settings minDelayRaised) = 3000
   \<and> maxDelay (settings minDelayRaised) = 2000
   \<and> \<not> minDelay (settings minDelayRaised) + 100 \<le> maxDelay (settings minDelayRaised)
   \<and> timers (sendMoveWithDelay (1/2) ''e2e4'' minDelayRaised) = [(2500, ''e2e4'')]"
proof -
  have r: "roundDouble (- 1000) = - 1000" "roundDouble (- 500) = - 500"
    "roundDouble 2500 = 2500"
    using roundDouble_int [of "- 1000"] roundDouble_int [of "- 500"] roundDouble_int [of 2500]
    by simp_all
  show ?thesis
    by (simp add: minDelayRaised_def panel_defs getSettings_def sendMoveWithDelay_def
        delay_def r)
qed

text \<open>
  C8 as stated fails. When the two delays are equal, which \<open>maxDelay \<ge> minDelay\<close> allows, the
  delay is \<open>minDelay\<close> and the interval from \<open>minDelay\<close> to \<open>maxDelay\<close> exclusive is empty.
  And beyond \<open>2^53\<close> the sum is rounded: with the delays \<open>2^53 + 2\<close> and \<open>2^53 + 4\<close> and
  \<^verbatim>\<open>Math.random()\<close> returning \<open>1/2\<close> the delay is \<open>maxDelay\<close>.
\<close>

theorem C8_counterexample:
  "humanLikeTiming (settings delaysEqual)
   \<and> minDelay (settings delaysEqual) \<le> maxDelay (settings delaysEqual)
   \<and> timers (sendMoveWithDelay (1/2) ''e2e4'' delaysEqual) = [(2000, ''e2e4'')]
   \<and> \<not> (minDelay (settings delaysEqual) \<le> delay (1/2) (settings delaysEqual)
         \<and> delay (1/2) (settings delaysEqual) < maxDelay (settings delaysEqual))
   \<and> humanLikeTiming (settings delaysBeyond)
   \<and> minDelay (settings delaysBeyond) = 9007199254740994
   \<and> maxDelay (settings delaysBeyond) = 9007199254740996
   \<and> delay (1/2) (settings delaysBeyond) = 9007199254740996"
proof -
  have e: "humanLikeTiming (settings delaysEqual) \<and> minDelay (settings delaysEqual) = 2000
           \<and> maxDelay (settings delaysEqual) = 2000 \<and> timers delaysEqual = []"
    by (simp add: delaysEqual_def panel_defs)
  then have de: "delay (1/2) (settings delaysEqual) = 2000"
    using delay_human_equal [of "settings delaysEqual" "1/2"] by simp
  have b: "humanLikeTiming (settings delaysBeyond)
           \<and> minDelay (settings delaysBeyond) = 9007199254740994
           \<and> maxDelay (settings delaysBeyond) = 9007199254740996"
    by (simp add: delaysBeyond_def panel_defs)
  have r: "roundDouble 2 = 2" "roundDouble 1 = 1"
    using roundDouble_int [of 2] roundDouble_int [of 1] by simp_all
  have db: "delay (1/2) (settings delaysBeyond) = 9007199254740996"
    using b by (simp add: delay_def r roundDouble_tie_beyond)
  from e de b db show ?thesis by (simp add: sendMoveWithDelay_def)
qed

text \<open>
  C8, amended. With human-like timing enabled and integer delays with
  \<open>0 \<le> minDelay < maxDelay \<le> 2^53\<close>, the delay of a scheduled dispatch, computed in double
  arithmetic, is an integer with \<open>minDelay \<le> delay < maxDelay\<close>, for every double in
  \<open>[0, 1)\<close> that \<^verbatim>\<open>Math.random()\<close> can return; when the two delays are equal (and at most
  \<open>2^53\<close> in magnitude) it is \<open>minDelay\<close>; with human-like timing disabled it is exactly
  \<open>minDelay\<close>. The timer is started with that delay.
\<close>

theorem C8_delay_in_range:
  assumes "roundDouble rnd = rnd" and "0 \<le> rnd" and "rnd < 1"
  shows "(humanLikeTiming (settings s) \<and> 0 \<le> minDelay (settings s)
            \<and> minDelay (settings s) < maxDelay (settings s)
            \<and> maxDelay (settings s) \<le> 2 ^ 53
          \<longrightarrow> minDelay (settings s) \<le> delay rnd (settings s)
              \<and> delay rnd (settings s) < maxDelay (settings s))
       \<and> (humanLikeTiming (settings s) \<and> minDelay (settings s) = maxDelay (settings s)
            \<and> \<bar>minDelay (settings s)\<bar> \<le> 2 ^ 53
          \<longrightarrow> delay rnd (settings s) = minDelay (settings s))
       \<and> (\<not> humanLikeTiming (settings s) \<longrightarrow> delay rnd (settings s) = minDelay (settings s))
       \<and> timers (sendMoveWithDelay rnd move s) = timers s @ [(delay rnd (settings s), move)]"
proof -
  have 1: "minDelay (settings s) \<le> delay rnd (settings s)
           \<and> delay rnd (settings s) < maxDelay (settings s)"
    if "humanLikeTiming (settings s)" "0 \<le> minDelay (settings s)"
      "minDelay (settings s) < maxDelay (settings s)" "maxDelay (settings s) \<le> 2 ^ 53"
    using assms that by (rule delay_human_range)
  have 2: "delay rnd (settings s) = minDelay (settings s)"
    if "humanLikeTiming (settings s)" "minDelay (settings s) = maxDelay (settings s)"
      "\<bar>minDelay (settings s)\<bar> \<le> 2 ^ 53"
    using that by (rule delay_human_equal)
  have 3: "delay rnd (settings s) = minDelay (settings s)" if "\<not> humanLikeTiming (settings s)"
    using that by (simp add: delay_def)
  have 4: "timers (sendMoveWithDelay rnd move s) = timers s @ [(delay rnd (settings s), move)]"
    by (simp add: sendMoveWithDelay_def)
  from 1 2 3 4 show ?thesis by blast
qed

theorem C8_delay_in_range_witness:
  "roundDouble (1/2) = 1/2 \<and> (0::real) \<le> 1/2 \<and> (1/2::real) < 1
   \<and> humanLikeTiming (settings (onHumanToggle connectedReady))
   \<and> minDelay (settings (onHumanToggle connectedReady)) = 500
   \<and> maxDelay (settings (onHumanToggle connectedReady)) = 2000
   \<and> 500 \<le> delay (1/2) (settings (onHumanToggle connectedReady))
   \<and> delay (1/2) (settings (onHumanToggle connectedReady)) < 2000
   \<and> humanLikeTiming (settings delaysEqual)
   \<and> minDelay (settings delaysEqual) = 2000 \<and> maxDelay (settings delaysEqual) = 2000
   \<and> delay (1/2) (settings delaysEqual) = 2000
   \<and> \<not> humanLikeTiming (settings connectedReady)
   \<and> delay (1/2) (settings connectedReady) = 500
   \<and> timers (sendMoveWithDelay (1/2) ''e2e4'' connectedReady) = [(500, ''e2e4'')]"
proof -
  have h0: "roundDouble (1/2) = 1/2" by (rule roundDouble_half)
  have h1: "(0::real) \<le> 1/2" and h2: "(1/2::real) < 1" by simp_all
  have a: "humanLikeTiming (settings (onHumanToggle connectedReady))
           \<and> minDelay (settings (onHumanToggle connectedReady)) = 500
           \<and> maxDelay (settings (onHumanToggle connectedReady)) = 2000"
    by (simp add: scenario_defs onHumanToggle_def)
  have e: "humanLikeTiming (settings delaysEqual)
           \<and> minDelay (settings delaysEqual) = 2000 \<and> maxDelay (settings delaysEqual) = 2000"
    by (simp add: delaysEqual_def panel_defs)
  have b: "\<not> humanLikeTiming (settings connectedReady)
           \<and> minDelay (settings connectedReady) = 500 \<and> timers connectedReady = []"
    by (simp add: scenario_defs)
  from C8_delay_in_range [OF h0 h1 h2, of "onHumanToggle connectedReady"] a
  have 1: "500 \<le> delay (1/2) (settings (onHumanToggle connectedReady))
           \<and> delay (1/2) (settings (onHumanToggle connectedReady)) < 2000"
    by simp
  from C8_delay_in_range [OF h0 h1 h2, of delaysEqual] e
  have 2: "delay (1/2) (settings delaysEqual) = 2000"
    by simp
  from C8_delay_in_range [OF h0 h1 h2, of connectedReady "''e2e4''"] b
  have 3: "delay (1/2) (settings connectedReady) = 500
           \<and> timers (sendMoveWithDelay (1/2) ''e2e4'' connectedReady) = [(500, ''e2e4'')]"
    by simp
  from h0 h1 h2 a e b 1 2 3 show ?thesis by simp
qed

text \<open>
  C9. A state-update frame with a \<open>fen\<close> string and no \<open>ply\<close> is handled as the same frame
  with ply 0: the indicator appended is that of the first player, \<open>w\<close>.
\<close>

theorem C9_missing_ply_is_white:
  assumes "t = ''d'' \<or> t = ''move''"
  shows "sideToMove None = '' w''
       \<and> currentFen (socketOnMessage (Message t (Some (Body (Some fen) None))) s)
           = completeFen (fen @ '' w'')
       \<and> socketOnMessage (Message t (Some (Body (Some fen) None))) s
           = socketOnMessage (Message t (Some (Body (Some fen) (Some 0)))) s"
proof -
  have n: "sideToMove None = '' w''" by (rule sideToMove_None)
  have z: "sideToMove (Some 0) = '' w''" by (simp add: sideToMove_parity)
  have "currentFen (socketOnMessage (Message t (Some (Body (Some fen) None))) s)
        = completeFen (fen @ '' w'')"
    using tracked_update [OF assms] currentFen_positionUpdate [of fen None s] n
    by (simp del: positionUpdate.simps)
  moreover have "socketOnMessage (Message t (Some (Body (Some fen) None))) s
        = socketOnMessage (Message t (Some (Body (Some fen) (Some 0)))) s"
    using tracked_update [OF assms] n z by simp
  ultimately show ?thesis using n by simp
qed

theorem C9_missing_ply_is_white_witness:
  "currentFen
     (socketOnMessage (Message ''move'' (Some (Body (Some ''8/8/8/8/8/8/8/8'') None)))
        connectedReady)
   = ''8/8/8/8/8/8/8/8 w - - 0 1''"
proof -
  have h: "''move'' = ''d'' \<or> ''move'' = ''move''" by simp
  have c: "completeFen ''8/8/8/8/8/8/8/8 w'' = ''8/8/8/8/8/8/8/8 w - - 0 1''"
    by (simp add: completeFen_def push_when_def)
  from C9_missing_ply_is_white [OF h, of "''8/8/8/8/8/8/8/8''" connectedReady]
  have "currentFen
          (socketOnMessage (Message ''move'' (Some (Body (Some ''8/8/8/8/8/8/8/8'') None)))
             connectedReady)
        = completeFen (''8/8/8/8/8/8/8/8'' @ '' w'')"
    by blast
  with c show ?thesis by simp
qed

text \<open>
  C10. On every engine line that contains \<^verbatim>\<open>bestmove\<close>, whatever the token it reports,
  the calculating flag is cleared; a submission made next is admitted on the conditions
  that remain (engine ready, a position that is not the last one submitted).
\<close>

theorem C10_bestmove_clears_calculating:
  assumes "includes_str message ''bestmove''"
  shows "\<not> isCalculating (engineOnMessage rnd now message s)
       \<and> (isEngineReady s \<and> currentFen s \<noteq> [] \<and> lastCalculatedFen s \<noteq> Some (currentFen s)
          \<longrightarrow> enginePosts (calculateMove (engineOnMessage rnd now message s))
                = enginePosts s
                    @ [PositionFen (currentFen s),
                       GoDepthMovetime (depth (settings s)) (timeLimitMs (settings s))])"
  using engineOnMessage_idle [OF assms, of rnd now s] engineOnMessage_keeps [of rnd now message s]
  by (simp add: calculateMove_def)

theorem C10_bestmove_clears_calculating_witness:
  "includes_str ''bestmove (none)'' ''bestmove''
   \<and> isCalculating stalemateScenario
   \<and> \<not> isCalculating (engineOnMessage 0 0 ''bestmove (none)'' stalemateScenario)
   \<and> isEngineReady (onRecalcClick stalemateScenario)
   \<and> lastCalculatedFen (onRecalcClick stalemateScenario) = None
   \<and> enginePosts
        (calculateMove (engineOnMessage 0 0 ''bestmove (none)'' (onRecalcClick stalemateScenario)))
       = enginePosts stalemateScenario
           @ [PositionFen ''7k/5Q2/6K1/8/8/8/8/8 b - - 0 1'', GoDepthMovetime 4 1000]"
proof -
  have h: "includes_str ''bestmove (none)'' ''bestmove''" by simp
  have c: "isCalculating stalemateScenario"
    by (simp add: stalemateScenario_def scenario_defs Let_def)
  have r: "isEngineReady (onRecalcClick stalemateScenario)
           \<and> lastCalculatedFen (onRecalcClick stalemateScenario) = None
           \<and> currentFen (onRecalcClick stalemateScenario) = ''7k/5Q2/6K1/8/8/8/8/8 b - - 0 1''
           \<and> enginePosts (onRecalcClick stalemateScenario) = enginePosts stalemateScenario
           \<and> depth (settings (onRecalcClick stalemateScenario)) = 4
           \<and> timeLimitMs (settings (onRecalcClick stalemateScenario)) = 1000"
    by (simp add: onRecalcClick_def stalemateScenario_def scenario_defs Let_def)
  from C10_bestmove_clears_calculating [OF h, of 0 0 stalemateScenario]
  have 1: "\<not> isCalculating (engineOnMessage 0 0 ''bestmove (none)'' stalemateScenario)"
    by blast
  from C10_bestmove_clears_calculating [OF h, of 0 0 "onRecalcClick stalemateScenario"] r
  have 2: "enginePosts
        (calculateMove (engineOnMessage 0 0 ''bestmove (none)'' (onRecalcClick stalemateScenario)))
       = enginePosts stalemateScenario
           @ [PositionFen ''7k/5Q2/6K1/8/8/8/8/8 b - - 0 1'', GoDepthMovetime 4 1000]"
    by simp
  from h c r 1 2 show ?thesis by simp
qed

end
